theory Spec2Isabelle
  imports Complex_Main "HOL-Library.AList" "HOL-Library.Multiset" "HOL-Library.Sublist"
begin

section \<open>Data model\<close>

text \<open>
  The schema of \<^verbatim>\<open>createDatabase\<close> (electron/main/database/index.ts): four tables.
  A table is the list of its rows in rowid order; an \<^verbatim>\<open>INTEGER\<close> column is an \<open>int\<close>,
  a nullable column an \<open>option\<close>.
\<close>

record meta_row =
  meta_name :: string
  meta_platform :: string
  meta_type :: string
  imported_at :: int

record member_row =
  member_id :: int
  platform_id :: string
  member_name :: string

record history_row =
  history_id :: int
  h_member_id :: int
  h_name :: string
  start_ts :: int
  end_ts :: "int option"

record message_row =
  message_id :: int
  sender_id :: int
  ts :: int
  msg_type :: int
  content :: "string option"

record database =
  meta :: "meta_row list"
  member :: "member_row list"
  member_name_history :: "history_row list"
  message :: "message_row list"

text \<open>What \<^verbatim>\<open>db.exec(CREATE TABLE IF NOT EXISTS ...)\<close> leaves in a new file.\<close>

definition emptyDb :: database where
  "emptyDb = \<lparr>meta = [], member = [], member_name_history = [], message = []\<rparr>"

text \<open>
  Exceptions of the source as values: a failing SQLite statement, a property read on
  \<^verbatim>\<open>undefined\<close>, a failing file-system call.
\<close>

datatype error = SqliteError | TypeError | FsError

section \<open>Session files\<close>

text \<open>
  The database directory: a path names a database file (with its committed content) or a
  side file (\<^verbatim>\<open>-wal\<close>, \<^verbatim>\<open>-shm\<close>) of SQLite's write-ahead log.
\<close>

datatype fs_entry = DbFile database | SideFile

type_synonym fsys = "string \<rightharpoonup> fs_entry"

definition getDbDir :: string where
  "getDbDir = ''ChatLens/databases''"

definition getDbPath :: "string \<Rightarrow> string" where
  "getDbPath sessionId = getDbDir @ ''/'' @ sessionId @ ''.db''"

definition existsSync :: "fsys \<Rightarrow> string \<Rightarrow> bool" where
  "existsSync fs p = (fs p \<noteq> None)"

text \<open>
  \<^verbatim>\<open>fs.unlinkSync\<close> throws when the path is absent or cannot be removed; \<open>locked\<close> tells the
  paths the operating system refuses to remove (a file held open, a permission).
\<close>

definition unlinkSync :: "(string \<Rightarrow> bool) \<Rightarrow> fsys \<Rightarrow> string \<Rightarrow> error + fsys" where
  "unlinkSync locked fs p =
     (if fs p = None \<or> locked p then Inl FsError else Inr (fs(p := None)))"

text \<open>
  \<^verbatim>\<open>deleteSession\<close>: each of the three paths is removed when it exists; the \<^verbatim>\<open>catch\<close>
  turns any exception into \<^verbatim>\<open>false\<close>, and whatever was removed before stays removed.
\<close>

definition unlinkIfExists :: "(string \<Rightarrow> bool) \<Rightarrow> fsys \<Rightarrow> string \<Rightarrow> error + fsys" where
  "unlinkIfExists locked fs p = (if existsSync fs p then unlinkSync locked fs p else Inr fs)"

definition deleteSession :: "(string \<Rightarrow> bool) \<Rightarrow> fsys \<Rightarrow> string \<Rightarrow> bool \<times> fsys" where
  "deleteSession locked fs sessionId =
     (let dbPath = getDbPath sessionId;
          walPath = dbPath @ ''-wal'';
          shmPath = dbPath @ ''-shm''
      in case unlinkIfExists locked fs dbPath of
           Inl e \<Rightarrow> (False, fs)
         | Inr fs1 \<Rightarrow>
             (case unlinkIfExists locked fs1 walPath of
                Inl e \<Rightarrow> (False, fs1)
              | Inr fs2 \<Rightarrow>
                  (case unlinkIfExists locked fs2 shmPath of
                     Inl e \<Rightarrow> (False, fs2)
                   | Inr fs3 \<Rightarrow> (True, fs3))))"

text \<open>The three paths of a session.\<close>

definition sessionPaths :: "string \<Rightarrow> string list" where
  "sessionPaths sessionId =
     [getDbPath sessionId, getDbPath sessionId @ ''-wal'', getDbPath sessionId @ ''-shm'']"

definition removeAll :: "fsys \<Rightarrow> string list \<Rightarrow> fsys" where
  "removeAll fs ps = (\<lambda>p. if p \<in> set ps then None else fs p)"

section \<open>Query helpers\<close>

text \<open>
  \<^verbatim>\<open>TimeFilter\<close> and \<^verbatim>\<open>buildTimeFilter\<close>: the clause \<^verbatim>\<open>ts >= ? AND ts <= ?\<close>, each bound
  present only when the field is defined, as the condition it puts on a timestamp.
\<close>

record TimeFilter =
  startTs :: "int option"
  endTs :: "int option"

definition buildTimeFilter :: "TimeFilter option \<Rightarrow> int \<Rightarrow> bool" where
  "buildTimeFilter tf t =
     ((case Option.bind tf startTs of None \<Rightarrow> True | Some s \<Rightarrow> s \<le> t) \<and>
      (case Option.bind tf endTs of None \<Rightarrow> True | Some e \<Rightarrow> t \<le> e))"

text \<open>The reserved sender name of the source's string literal, as its UTF-8 bytes.\<close>

definition systemName :: string where
  "systemName = [CHR 0xE7, CHR 0xB3, CHR 0xBB, CHR 0xE7, CHR 0xBB, CHR 0x9F,
                 CHR 0xE6, CHR 0xB6, CHR 0x88, CHR 0xE6, CHR 0x81, CHR 0xAF]"

text \<open>
  SQLite's \<^verbatim>\<open>LIMIT n\<close> (a negative \<open>n\<close> is no limit) and \<^verbatim>\<open>LIMIT n OFFSET k\<close> (a negative
  \<open>k\<close> is no offset).
\<close>

definition sqlLimit :: "int \<Rightarrow> 'a list \<Rightarrow> 'a list" where
  "sqlLimit n rows = (if n < 0 then rows else take (nat n) rows)"




section \<open>The search and navigation queries\<close>

text \<open>
  The query module reads a store whose \<^verbatim>\<open>member\<close> table has the columns its statements
  name: \<^verbatim>\<open>id\<close>, \<^verbatim>\<open>platform_id\<close>, and the nullable \<^verbatim>\<open>account_name\<close> and \<^verbatim>\<open>group_nickname\<close> (they
  stand under \<^verbatim>\<open>COALESCE\<close>). Its \<^verbatim>\<open>message\<close> table is the one above. The module imports
  \<^verbatim>\<open>openDatabase\<close> from a sibling module; the functions below take it as a parameter, from
  a session id to the opened store or nothing.
\<close>

record member_rec =
  mr_id :: int
  mr_platform_id :: string
  account_name :: "string option"
  group_nickname :: "string option"

record store =
  member_tbl :: "member_rec list"
  message_tbl :: "message_row list"

record SearchMessageResult =
  r_id :: int
  senderName :: string
  senderPlatformId :: string
  r_content :: "string option"
  r_timestamp :: int
  r_type :: int

record page =
  messages :: "SearchMessageResult list"
  total :: nat

text \<open>
  The select list shared by the queries:
  \<^verbatim>\<open>COALESCE(m.group_nickname, m.account_name, m.platform_id) as senderName\<close> and the
  message's columns.
\<close>

definition toResult :: "message_row \<Rightarrow> member_rec \<Rightarrow> SearchMessageResult" where
  "toResult msg m =
     \<lparr>r_id = message_id msg,
      senderName = (case group_nickname m of Some g \<Rightarrow> g
                    | None \<Rightarrow> (case account_name m of Some a \<Rightarrow> a | None \<Rightarrow> mr_platform_id m)),
      senderPlatformId = mr_platform_id m,
      r_content = content msg,
      r_timestamp = ts msg,
      r_type = msg_type msg\<rparr>"

text \<open>
  \<^verbatim>\<open>FROM message msg JOIN member m ON msg.sender_id = m.id WHERE cond\<close>: the pairs of a
  message and a member row with that id, in the order of the message table.
\<close>

definition joinMember :: "store \<Rightarrow> (message_row \<Rightarrow> member_rec \<Rightarrow> bool) \<Rightarrow> (message_row \<times> member_rec) list" where
  "joinMember db cond =
     concat (map (\<lambda>msg. map (\<lambda>m. (msg, m))
                           (filter (\<lambda>m. sender_id msg = mr_id m \<and> cond msg m) (member_tbl db)))
                 (message_tbl db))"

definition selectJoin :: "store \<Rightarrow> (message_row \<Rightarrow> member_rec \<Rightarrow> bool) \<Rightarrow> SearchMessageResult list" where
  "selectJoin db cond = map (\<lambda>(msg, m). toResult msg m) (joinMember db cond)"

text \<open>
  \<^verbatim>\<open>ORDER BY msg.ts DESC\<close>. SQL leaves the order of equal timestamps open; here it is the
  backward scan of the index on \<^verbatim>\<open>ts\<close>, later rows first.
\<close>

definition orderByTsDesc :: "SearchMessageResult list \<Rightarrow> SearchMessageResult list" where
  "orderByTsDesc rows = rev (sort_key r_timestamp rows)"

text \<open>\<^verbatim>\<open>COALESCE(m.account_name, '') != ...\<close>: the sender is not the system sender.\<close>

definition notSystem :: "member_rec \<Rightarrow> bool" where
  "notSystem m = ((case account_name m of None \<Rightarrow> [] | Some a \<Rightarrow> a) \<noteq> systemName)"

subsection \<open>getRecentMessages\<close>

definition recentCond :: "TimeFilter option \<Rightarrow> message_row \<Rightarrow> member_rec \<Rightarrow> bool" where
  "recentCond tf msg m =
     (buildTimeFilter tf (ts msg) \<and> notSystem m \<and> msg_type msg = 0 \<and>
      content msg \<noteq> None \<and> content msg \<noteq> Some [])"

definition getRecentMessages :: "(string \<Rightarrow> store option) \<Rightarrow> string \<Rightarrow> TimeFilter option \<Rightarrow> int \<Rightarrow> page" where
  "getRecentMessages openDatabase sessionId tf limit =
     (case openDatabase sessionId of
        None \<Rightarrow> \<lparr>messages = [], total = 0\<rparr>
      | Some db \<Rightarrow>
          (let total = length (joinMember db (recentCond tf));
               rows = sqlLimit limit (orderByTsDesc (selectJoin db (recentCond tf)))
           in \<lparr>messages = rev rows, total = total\<rparr>))"

subsection \<open>searchMessages\<close>




subsection \<open>getMessageContext\<close>






text \<open>
  The constraints of the schema on a store: \<^verbatim>\<open>id\<close> is the primary key of both tables, and
  \<^verbatim>\<open>sender_id\<close> references a member.
\<close>

definition wf_store :: "store \<Rightarrow> bool" where
  "wf_store db =
     (distinct (map message_id (message_tbl db)) \<and>
      distinct (map mr_id (member_tbl db)) \<and>
      list_all (\<lambda>msg. sender_id msg \<in> set (map mr_id (member_tbl db))) (message_tbl db))"

section \<open>The import\<close>

text \<open>
  The parse result, with the fields \<^verbatim>\<open>importData\<close> reads: the conversation's \<^verbatim>\<open>meta\<close>, the
  \<^verbatim>\<open>members\<close> and the \<^verbatim>\<open>messages\<close>.
\<close>

record parsed_meta =
  pmeta_name :: string
  pmeta_platform :: string
  pmeta_type :: string

record parsed_member =
  pm_platformId :: string
  pm_name :: string

record parsed_message =
  p_senderPlatformId :: string
  p_senderName :: string
  p_timestamp :: int
  p_type :: int
  p_content :: "string option"

record ParseResult =
  pr_meta :: parsed_meta
  pr_members :: "parsed_member list"
  pr_messages :: "parsed_message list"

subsection \<open>The prepared statements\<close>

text \<open>\<^verbatim>\<open>INTEGER PRIMARY KEY AUTOINCREMENT\<close>: one more than the largest id of the table.\<close>

definition nextId :: "int list \<Rightarrow> int" where
  "nextId ids = Max (set (0 # ids)) + 1"

definition insertMeta :: "string \<Rightarrow> string \<Rightarrow> string \<Rightarrow> int \<Rightarrow> database \<Rightarrow> database" where
  "insertMeta n p t now d =
     d\<lparr>meta := meta d @ [\<lparr>meta_name = n, meta_platform = p, meta_type = t, imported_at = now\<rparr>]\<rparr>"

text \<open>\<^verbatim>\<open>INSERT OR IGNORE\<close>: no row is added when the platform id (\<^verbatim>\<open>UNIQUE\<close>) is there.\<close>

definition insertMember :: "string \<Rightarrow> string \<Rightarrow> database \<Rightarrow> database" where
  "insertMember pid n d =
     (if pid \<in> set (map platform_id (member d)) then d
      else d\<lparr>member := member d @
                [\<lparr>member_id = nextId (map member_id (member d)), platform_id = pid,
                  member_name = n\<rparr>]\<rparr>)"

definition getMemberId :: "database \<Rightarrow> string \<Rightarrow> int option" where
  "getMemberId d pid = map_option member_id (find (\<lambda>m. platform_id m = pid) (member d))"

definition insertMessage :: "int \<Rightarrow> int \<Rightarrow> int \<Rightarrow> string option \<Rightarrow> database \<Rightarrow> database" where
  "insertMessage senderId t ty c d =
     d\<lparr>message := message d @
         [\<lparr>message_id = nextId (map message_id (message d)), sender_id = senderId, ts = t,
           msg_type = ty, content = c\<rparr>]\<rparr>"

definition insertNameHistory :: "int \<Rightarrow> string \<Rightarrow> int \<Rightarrow> int option \<Rightarrow> database \<Rightarrow> database" where
  "insertNameHistory mid n startT endT d =
     d\<lparr>member_name_history := member_name_history d @
         [\<lparr>history_id = nextId (map history_id (member_name_history d)), h_member_id = mid,
           h_name = n, start_ts = startT, end_ts = endT\<rparr>]\<rparr>"

definition updateMemberName :: "string \<Rightarrow> string \<Rightarrow> database \<Rightarrow> database" where
  "updateMemberName n pid d =
     d\<lparr>member := map (\<lambda>m. if platform_id m = pid then m\<lparr>member_name := n\<rparr> else m) (member d)\<rparr>"

definition updateNameHistoryEndTs :: "int \<Rightarrow> int \<Rightarrow> database \<Rightarrow> database" where
  "updateNameHistoryEndTs endT mid d =
     d\<lparr>member_name_history :=
         map (\<lambda>h. if h_member_id h = mid \<and> end_ts h = None then h\<lparr>end_ts := Some endT\<rparr> else h)
             (member_name_history d)\<rparr>"

subsection \<open>Statements that may throw\<close>

text \<open>
  A connection is the database as the open transaction sees it, and the number of statement
  executions that succeed before one throws (an I/O error, a full disk); \<open>None\<close> when
  none throws.
\<close>

record conn =
  conn_db :: database
  conn_faults :: "nat option"

definition tick :: "conn \<Rightarrow> error + conn" where
  "tick c = (case conn_faults c of
               None \<Rightarrow> Inr c
             | Some 0 \<Rightarrow> Inl SqliteError
             | Some (Suc n) \<Rightarrow> Inr (c\<lparr>conn_faults := Some n\<rparr>))"

definition run :: "(database \<Rightarrow> database) \<Rightarrow> conn \<Rightarrow> error + conn" where
  "run stmt c = (case tick c of Inl e \<Rightarrow> Inl e | Inr c' \<Rightarrow> Inr (c'\<lparr>conn_db := stmt (conn_db c')\<rparr>))"

subsection \<open>importData\<close>

text \<open>
  The two maps of the loop, in insertion order as a JavaScript \<^verbatim>\<open>Map\<close> keeps them:
  \<^verbatim>\<open>memberIdMap\<close> from platform id to member id, \<^verbatim>\<open>nicknameTracker\<close> from platform id to
  \<^verbatim>\<open>{currentName, lastSeenTs}\<close>.
\<close>

type_synonym memberIdMap = "(string \<times> int) list"
type_synonym nicknameTracker = "(string \<times> (string \<times> int)) list"

text \<open>
  The loop over \<^verbatim>\<open>parseResult.members\<close>: insert, read the id back (\<^verbatim>\<open>row.id\<close> throws when
  there is no row), record it.
\<close>

fun insertMembers :: "parsed_member list \<Rightarrow> conn \<times> memberIdMap \<Rightarrow> error + (conn \<times> memberIdMap)" where
  "insertMembers [] s = Inr s"
| "insertMembers (mem # rest) (c, memberIdMap) =
     (case run (insertMember (pm_platformId mem) (pm_name mem)) c of
        Inl e \<Rightarrow> Inl e
      | Inr c1 \<Rightarrow>
          (case tick c1 of
             Inl e \<Rightarrow> Inl e
           | Inr c2 \<Rightarrow>
               (case getMemberId (conn_db c2) (pm_platformId mem) of
                  None \<Rightarrow> Inl TypeError
                | Some i \<Rightarrow>
                    insertMembers rest (c2, AList.update (pm_platformId mem) i memberIdMap))))"

text \<open>
  The body of the loop over the sorted messages: a message of an unknown sender is skipped;
  otherwise the message is inserted, then the sender's name is compared with the tracker.
\<close>

definition processMessage :: "memberIdMap \<Rightarrow> parsed_message \<Rightarrow> conn \<times> nicknameTracker \<Rightarrow> error + (conn \<times> nicknameTracker)" where
  "processMessage memberIdMap msg s =
     (case s of (c, nicknameTracker) \<Rightarrow>
       (case map_of memberIdMap (p_senderPlatformId msg) of
          None \<Rightarrow> Inr (c, nicknameTracker)
        | Some senderId \<Rightarrow>
            (case run (insertMessage senderId (p_timestamp msg) (p_type msg) (p_content msg)) c of
               Inl e \<Rightarrow> Inl e
             | Inr c1 \<Rightarrow>
                 (let currentName = p_senderName msg
                  in case map_of nicknameTracker (p_senderPlatformId msg) of
                       None \<Rightarrow>
                         (case run (insertNameHistory senderId currentName (p_timestamp msg) None) c1 of
                            Inl e \<Rightarrow> Inl e
                          | Inr c2 \<Rightarrow>
                              Inr (c2, AList.update (p_senderPlatformId msg)
                                         (currentName, p_timestamp msg) nicknameTracker))
                     | Some tracker \<Rightarrow>
                         (if fst tracker \<noteq> currentName
                          then (case run (updateNameHistoryEndTs (p_timestamp msg) senderId) c1 of
                                  Inl e \<Rightarrow> Inl e
                                | Inr c2 \<Rightarrow>
                                    (case run (insertNameHistory senderId currentName
                                                 (p_timestamp msg) None) c2 of
                                       Inl e \<Rightarrow> Inl e
                                     | Inr c3 \<Rightarrow>
                                         Inr (c3, AList.update (p_senderPlatformId msg)
                                                    (currentName, p_timestamp msg)
                                                    nicknameTracker)))
                          else Inr (c1, AList.update (p_senderPlatformId msg)
                                          (fst tracker, p_timestamp msg) nicknameTracker))))))"

fun walkMessages :: "memberIdMap \<Rightarrow> parsed_message list \<Rightarrow> conn \<times> nicknameTracker \<Rightarrow> error + (conn \<times> nicknameTracker)" where
  "walkMessages memberIdMap [] s = Inr s"
| "walkMessages memberIdMap (msg # rest) s =
     (case processMessage memberIdMap msg s of
        Inl e \<Rightarrow> Inl e
      | Inr s' \<Rightarrow> walkMessages memberIdMap rest s')"

text \<open>The last loop: \<^verbatim>\<open>updateMemberName.run(tracker.currentName, platformId)\<close> per entry.\<close>

fun updateNames :: "nicknameTracker \<Rightarrow> conn \<Rightarrow> error + conn" where
  "updateNames [] c = Inr c"
| "updateNames ((platformId', tracker) # rest) c =
     (case run (updateMemberName (fst tracker) platformId') c of
        Inl e \<Rightarrow> Inl e
      | Inr c1 \<Rightarrow> updateNames rest c1)"

text \<open>
  The function given to \<^verbatim>\<open>db.transaction\<close>. \<^verbatim>\<open>now\<close> is
  \<^verbatim>\<open>Math.floor(Date.now() / 1000)\<close>; the sort is JavaScript's stable sort by timestamp.
\<close>

definition importTransaction :: "ParseResult \<Rightarrow> int \<Rightarrow> conn \<Rightarrow> error + conn" where
  "importTransaction parseResult now c =
     (case run (insertMeta (pmeta_name (pr_meta parseResult)) (pmeta_platform (pr_meta parseResult))
                  (pmeta_type (pr_meta parseResult)) now) c of
        Inl e \<Rightarrow> Inl e
      | Inr c1 \<Rightarrow>
          (case insertMembers (pr_members parseResult) (c1, []) of
             Inl e \<Rightarrow> Inl e
           | Inr (c2, memberIdMap) \<Rightarrow>
               (let sortedMessages = sort_key p_timestamp (pr_messages parseResult)
                in case walkMessages memberIdMap sortedMessages (c2, []) of
                     Inl e \<Rightarrow> Inl e
                   | Inr (c3, nicknameTracker) \<Rightarrow> updateNames nicknameTracker c3)))"

text \<open>
  \<^verbatim>\<open>db.transaction(f)()\<close>: \<^verbatim>\<open>BEGIN\<close>, the body, \<^verbatim>\<open>COMMIT\<close>; when any of them throws the
  transaction is rolled back, the database is as it was before \<^verbatim>\<open>BEGIN\<close>, and the
  exception goes on to the caller.
\<close>

definition transaction :: "(conn \<Rightarrow> error + conn) \<Rightarrow> conn \<Rightarrow> (error + unit) \<times> database" where
  "transaction body c =
     (case tick c of
        Inl e \<Rightarrow> (Inl e, conn_db c)
      | Inr c0 \<Rightarrow>
          (case body c0 of
             Inl e \<Rightarrow> (Inl e, conn_db c)
           | Inr c1 \<Rightarrow>
               (case tick c1 of
                  Inl e \<Rightarrow> (Inl e, conn_db c)
                | Inr c2 \<Rightarrow> (Inr (), conn_db c2))))"

text \<open>
  \<^verbatim>\<open>createDatabase\<close>: \<^verbatim>\<open>new Database(dbPath)\<close> creates the file when it is not there, and
  \<^verbatim>\<open>CREATE TABLE IF NOT EXISTS\<close> leaves the tables of an existing database alone.
\<close>

definition createDatabase :: "fsys \<Rightarrow> string \<Rightarrow> error + (database \<times> fsys)" where
  "createDatabase fs sessionId =
     (case fs (getDbPath sessionId) of
        None \<Rightarrow> Inr (emptyDb, fs(getDbPath sessionId \<mapsto> DbFile emptyDb))
      | Some (DbFile d) \<Rightarrow> Inr (d, fs)
      | Some SideFile \<Rightarrow> Inl SqliteError)"

text \<open>
  \<^verbatim>\<open>importData\<close>. \<open>sessionId\<close> is what \<^verbatim>\<open>generateSessionId\<close> returns. The database is
  created before the \<^verbatim>\<open>try\<close>; the \<^verbatim>\<open>catch\<close> rethrows; \<^verbatim>\<open>finally\<close> closes the database,
  which leaves the file with the committed content.
\<close>

definition importData :: "fsys \<Rightarrow> string \<Rightarrow> int \<Rightarrow> nat option \<Rightarrow> ParseResult \<Rightarrow> (error + string) \<times> fsys" where
  "importData fs sessionId now faults parseResult =
     (case createDatabase fs sessionId of
        Inl e \<Rightarrow> (Inl e, fs)
      | Inr (d, fs1) \<Rightarrow>
          (case transaction (importTransaction parseResult now)
                  \<lparr>conn_db = d, conn_faults = faults\<rparr> of
             (Inl e, d') \<Rightarrow> (Inl e, fs1(getDbPath sessionId \<mapsto> DbFile d'))
           | (Inr u, d') \<Rightarrow> (Inr sessionId, fs1(getDbPath sessionId \<mapsto> DbFile d'))))"

section \<open>Analytics: getMemberActivity\<close>

text \<open>
  \<^verbatim>\<open>openDatabase\<close> of index.ts: nothing when the file does not exist, else the database of
  the file; opening a file that is no database throws.
\<close>

definition openDatabase :: "fsys \<Rightarrow> string \<Rightarrow> error + database option" where
  "openDatabase fs sessionId =
     (case fs (getDbPath sessionId) of
        None \<Rightarrow> Inr None
      | Some (DbFile db) \<Rightarrow> Inr (Some db)
      | Some SideFile \<Rightarrow> Inl SqliteError)"






section \<open>Specification predicates and example stores\<close>

text \<open>
  A message matches \<^verbatim>\<open>getRecentMessages\<close> when it is plain text (type 0) with a non-empty
  content, inside the time filter, and its sender is a member other than the system sender.
\<close>

definition matchesRecent :: "store \<Rightarrow> TimeFilter option \<Rightarrow> message_row \<Rightarrow> bool" where
  "matchesRecent db tf msg =
     (msg_type msg = 0 \<and> content msg \<noteq> None \<and> content msg \<noteq> Some [] \<and>
      buildTimeFilter tf (ts msg) \<and>
      list_ex (\<lambda>m. mr_id m = sender_id msg \<and> notSystem m) (member_tbl db))"


text \<open>A session never locked, and a session with its database file and its log.\<close>

definition noLock :: "string \<Rightarrow> bool" where
  "noLock p = False"

definition fsOneSession :: fsys where
  "fsOneSession = [getDbPath ''chat_1_abc'' \<mapsto> DbFile emptyDb,
                   getDbPath ''chat_1_abc'' @ ''-wal'' \<mapsto> SideFile]"

text \<open>A store with three members (one the system sender) and seven messages.\<close>

definition exStore :: store where
  "exStore =
     \<lparr>member_tbl =
        [\<lparr>mr_id = 1, mr_platform_id = ''u1'', account_name = Some ''Alice'', group_nickname = None\<rparr>,
         \<lparr>mr_id = 2, mr_platform_id = ''u2'', account_name = Some ''Bob'', group_nickname = Some ''Bobby''\<rparr>,
         \<lparr>mr_id = 3, mr_platform_id = ''u3'', account_name = Some systemName, group_nickname = None\<rparr>],
      message_tbl =
        [\<lparr>message_id = 1, sender_id = 1, ts = 100, msg_type = 0, content = Some ''abc''\<rparr>,
         \<lparr>message_id = 2, sender_id = 2, ts = 150, msg_type = 0, content = Some ''hello''\<rparr>,
         \<lparr>message_id = 3, sender_id = 3, ts = 160, msg_type = 0, content = Some ''joined''\<rparr>,
         \<lparr>message_id = 4, sender_id = 1, ts = 200, msg_type = 1, content = None\<rparr>,
         \<lparr>message_id = 5, sender_id = 2, ts = 120, msg_type = 0, content = Some ''late''\<rparr>,
         \<lparr>message_id = 6, sender_id = 1, ts = 300, msg_type = 0, content = Some []\<rparr>,
         \<lparr>message_id = 7, sender_id = 1, ts = 300, msg_type = 0, content = Some ''bye''\<rparr>]\<rparr>"

definition openEx :: "string \<Rightarrow> store option" where
  "openEx sessionId = (if sessionId = ''chat_1_abc'' then Some exStore else None)"






text \<open>
  A parse result: \<open>x\<close> sends as Alice at 100 and as Alicia at 200 and 300, \<open>y\<close> as Bob at
  150, \<open>z\<close> never, and one message comes from a platform id that is no member; the
  messages are not in the order of their timestamps.
\<close>

definition prScenario :: ParseResult where
  "prScenario =
     \<lparr>pr_meta = \<lparr>pmeta_name = ''group'', pmeta_platform = ''qq'', pmeta_type = ''group''\<rparr>,
      pr_members = [\<lparr>pm_platformId = ''x'', pm_name = ''Al''\<rparr>,
                    \<lparr>pm_platformId = ''y'', pm_name = ''Bob''\<rparr>,
                    \<lparr>pm_platformId = ''z'', pm_name = ''Carol''\<rparr>],
      pr_messages =
        [\<lparr>p_senderPlatformId = ''x'', p_senderName = ''Alicia'', p_timestamp = 300, p_type = 0, p_content = Some ''c''\<rparr>,
         \<lparr>p_senderPlatformId = ''x'', p_senderName = ''Alice'', p_timestamp = 100, p_type = 0, p_content = Some ''a''\<rparr>,
         \<lparr>p_senderPlatformId = ''y'', p_senderName = ''Bob'', p_timestamp = 150, p_type = 0, p_content = None\<rparr>,
         \<lparr>p_senderPlatformId = ''w'', p_senderName = ''Who'', p_timestamp = 160, p_type = 0, p_content = Some ''?''\<rparr>,
         \<lparr>p_senderPlatformId = ''x'', p_senderName = ''Alicia'', p_timestamp = 200, p_type = 0, p_content = Some ''b''\<rparr>]\<rparr>"

text \<open>The database the import of that parse result leaves, at import time 1000.\<close>

definition importedScenario :: database where
  "importedScenario =
    \<lparr>meta = [\<lparr>meta_name = ''group'', meta_platform = ''qq'', meta_type = ''group'', imported_at = 1000\<rparr>],
     member =
       [\<lparr>member_id = 1, platform_id = ''x'', member_name = ''Alicia''\<rparr>,
        \<lparr>member_id = 2, platform_id = ''y'', member_name = ''Bob''\<rparr>,
        \<lparr>member_id = 3, platform_id = ''z'', member_name = ''Carol''\<rparr>],
     member_name_history =
       [\<lparr>history_id = 1, h_member_id = 1, h_name = ''Alice'', start_ts = 100, end_ts = Some 200\<rparr>,
        \<lparr>history_id = 2, h_member_id = 2, h_name = ''Bob'', start_ts = 150, end_ts = None\<rparr>,
        \<lparr>history_id = 3, h_member_id = 1, h_name = ''Alicia'', start_ts = 200, end_ts = None\<rparr>],
     message =
       [\<lparr>message_id = 1, sender_id = 1, ts = 100, msg_type = 0, content = Some ''a''\<rparr>,
        \<lparr>message_id = 2, sender_id = 2, ts = 150, msg_type = 0, content = None\<rparr>,
        \<lparr>message_id = 3, sender_id = 1, ts = 200, msg_type = 0, content = Some ''b''\<rparr>,
        \<lparr>message_id = 4, sender_id = 1, ts = 300, msg_type = 0, content = Some ''c''\<rparr>]\<rparr>"

text \<open>
  The example with its messages in the reverse order; and a tie: one sender, two messages
  at the same timestamp under two names, in both orders, with the databases their imports
  leave.
\<close>

definition prScenarioRev :: ParseResult where
  "prScenarioRev = prScenario\<lparr>pr_messages := rev (pr_messages prScenario)\<rparr>"

definition prTieAB :: ParseResult where
  "prTieAB =
     \<lparr>pr_meta = \<lparr>pmeta_name = ''group'', pmeta_platform = ''qq'', pmeta_type = ''group''\<rparr>,
      pr_members = [\<lparr>pm_platformId = ''x'', pm_name = ''A''\<rparr>],
      pr_messages =
        [\<lparr>p_senderPlatformId = ''x'', p_senderName = ''A'', p_timestamp = 100, p_type = 0, p_content = Some ''a''\<rparr>,
         \<lparr>p_senderPlatformId = ''x'', p_senderName = ''B'', p_timestamp = 100, p_type = 0, p_content = Some ''b''\<rparr>]\<rparr>"

definition prTieBA :: ParseResult where
  "prTieBA = prTieAB\<lparr>pr_messages := rev (pr_messages prTieAB)\<rparr>"

definition importedTieAB :: database where
  "importedTieAB =
    \<lparr>meta = [\<lparr>meta_name = ''group'', meta_platform = ''qq'', meta_type = ''group'', imported_at = 1000\<rparr>],
     member = [\<lparr>member_id = 1, platform_id = ''x'', member_name = ''B''\<rparr>],
     member_name_history =
       [\<lparr>history_id = 1, h_member_id = 1, h_name = ''A'', start_ts = 100, end_ts = Some 100\<rparr>,
        \<lparr>history_id = 2, h_member_id = 1, h_name = ''B'', start_ts = 100, end_ts = None\<rparr>],
     message =
       [\<lparr>message_id = 1, sender_id = 1, ts = 100, msg_type = 0, content = Some ''a''\<rparr>,
        \<lparr>message_id = 2, sender_id = 1, ts = 100, msg_type = 0, content = Some ''b''\<rparr>]\<rparr>"

definition importedTieBA :: database where
  "importedTieBA =
    \<lparr>meta = [\<lparr>meta_name = ''group'', meta_platform = ''qq'', meta_type = ''group'', imported_at = 1000\<rparr>],
     member = [\<lparr>member_id = 1, platform_id = ''x'', member_name = ''A''\<rparr>],
     member_name_history =
       [\<lparr>history_id = 1, h_member_id = 1, h_name = ''B'', start_ts = 100, end_ts = Some 100\<rparr>,
        \<lparr>history_id = 2, h_member_id = 1, h_name = ''A'', start_ts = 100, end_ts = None\<rparr>],
     message =
       [\<lparr>message_id = 1, sender_id = 1, ts = 100, msg_type = 0, content = Some ''b''\<rparr>,
        \<lparr>message_id = 2, sender_id = 1, ts = 100, msg_type = 0, content = Some ''a''\<rparr>]\<rparr>"

section \<open>Specification predicates of the import\<close>

text \<open>
  The name-history rows of a member id, in the order of the table (the order of insertion).
\<close>

definition memberHistory :: "database \<Rightarrow> int \<Rightarrow> history_row list" where
  "memberHistory d i = filter (\<lambda>h. h_member_id h = i) (member_name_history d)"

text \<open>
  A member's rows form a timeline when each row but the last ends where the next one
  starts, no row starts before its predecessor, and the last row is open.
\<close>

fun timeline :: "history_row list \<Rightarrow> bool" where
  "timeline [] = True"
| "timeline [h] = (end_ts h = None)"
| "timeline (h # g # hs) =
     (end_ts h = Some (start_ts g) \<and> start_ts h \<le> start_ts g \<and> timeline (g # hs))"

text \<open>
  What the loop over the members keeps: ids and platform ids of the member table are
  distinct, and \<^verbatim>\<open>memberIdMap\<close> maps exactly the platform ids of the table to their ids.
\<close>

definition membersInv :: "database \<Rightarrow> memberIdMap \<Rightarrow> bool" where
  "membersInv d idm =
     (distinct (map member_id (member d)) \<and> distinct (map platform_id (member d)) \<and>
      (\<forall>m\<in>set (member d). map_of idm (platform_id m) = Some (member_id m)) \<and>
      (\<forall>pid i. map_of idm pid = Some i \<longrightarrow>
           (\<exists>m\<in>set (member d). platform_id m = pid \<and> member_id m = i)))"

text \<open>
  The row as \<^verbatim>\<open>updateNameHistoryEndTs\<close> leaves it.
\<close>

definition closeAt :: "int \<Rightarrow> history_row \<Rightarrow> history_row" where
  "closeAt t h = (if end_ts h = None then h\<lparr>end_ts := Some t\<rparr> else h)"

text \<open>
  What the loop over the messages keeps: a tracked sender has rows and its last row carries
  the tracked name, a sender not yet seen has none; every member's rows form a timeline; no
  row starts after \<open>lo\<close>; the tracker has each key once.
\<close>

definition trackerInv :: "memberIdMap \<Rightarrow> database \<Rightarrow> nicknameTracker \<Rightarrow> int \<Rightarrow> bool" where
  "trackerInv idm d tr lo =
     ((\<forall>pid i. map_of idm pid = Some i \<longrightarrow>
         (case map_of tr pid of
            None \<Rightarrow> memberHistory d i = []
          | Some x \<Rightarrow> memberHistory d i \<noteq> [] \<and> h_name (last (memberHistory d i)) = fst x))
      \<and> (\<forall>i. timeline (memberHistory d i))
      \<and> (\<forall>h\<in>set (member_name_history d). start_ts h \<le> lo)
      \<and> distinct (map fst tr))"

text \<open>
  \<^verbatim>\<open>memberIdMap\<close> gives different platform ids different member ids.
\<close>

definition idmInj :: "memberIdMap \<Rightarrow> bool" where
  "idmInj idm = (\<forall>p q i. map_of idm p = Some i \<longrightarrow> map_of idm q = Some i \<longrightarrow> p = q)"

text \<open>
  A message row without its id, and the row the loop inserts for a parsed message.
\<close>

definition rowOf :: "message_row \<Rightarrow> int \<times> int \<times> int \<times> string option" where
  "rowOf r = (sender_id r, ts r, msg_type r, content r)"

definition sentRow :: "memberIdMap \<Rightarrow> parsed_message \<Rightarrow> int \<times> int \<times> int \<times> string option" where
  "sentRow idm m = (the (map_of idm (p_senderPlatformId m)), p_timestamp m, p_type m, p_content m)"

text \<open>
  The sender of a parsed message is in \<^verbatim>\<open>memberIdMap\<close>.
\<close>

definition knownSender :: "memberIdMap \<Rightarrow> parsed_message \<Rightarrow> bool" where
  "knownSender idm m = (map_of idm (p_senderPlatformId m) \<noteq> None)"

text \<open>
  The member row after the last loop.
\<close>

definition renamed :: "nicknameTracker \<Rightarrow> member_row \<Rightarrow> member_row" where
  "renamed tr m = (case map_of tr (platform_id m) of
                     None \<Rightarrow> m
                   | Some x \<Rightarrow> m\<lparr>member_name := fst x\<rparr>)"

text \<open>The platform id of the member a message row's \<^verbatim>\<open>sender_id\<close> refers to.\<close>

definition senderPid :: "database \<Rightarrow> message_row \<Rightarrow> string option" where
  "senderPid d r = map_option platform_id (find (\<lambda>m. member_id m = sender_id r) (member d))"

text \<open>
  A parse result whose only message comes from a platform id that is no member, and the
  database its import leaves.
\<close>

definition prUnknown :: ParseResult where
  "prUnknown =
     \<lparr>pr_meta = \<lparr>pmeta_name = ''group'', pmeta_platform = ''qq'', pmeta_type = ''group''\<rparr>,
      pr_members = [\<lparr>pm_platformId = ''x'', pm_name = ''A''\<rparr>],
      pr_messages =
        [\<lparr>p_senderPlatformId = ''w'', p_senderName = ''Who'', p_timestamp = 100, p_type = 0, p_content = Some ''hi''\<rparr>]\<rparr>"

definition importedUnknown :: database where
  "importedUnknown =
    \<lparr>meta = [\<lparr>meta_name = ''group'', meta_platform = ''qq'', meta_type = ''group'', imported_at = 1000\<rparr>],
     member = [\<lparr>member_id = 1, platform_id = ''x'', member_name = ''A''\<rparr>],
     member_name_history = [],
     message = []\<rparr>"

section \<open>Properties of deleteSession\<close>

lemma unlinkIfExists_ok:
  "(fs p \<noteq> None \<longrightarrow> \<not> locked p) \<Longrightarrow> unlinkIfExists locked fs p = Inr (fs(p := None))"
  by (auto simp: unlinkIfExists_def unlinkSync_def existsSync_def)

lemma sessionPaths_distinct: "distinct (sessionPaths sessionId)"
  by (simp add: sessionPaths_def)

lemma removeAll_sessionPaths:
  "removeAll fs (sessionPaths sessionId)
     = fs(getDbPath sessionId := None, getDbPath sessionId @ ''-wal'' := None,
          getDbPath sessionId @ ''-shm'' := None)"
  by (rule ext) (simp add: removeAll_def sessionPaths_def)

lemma deleteSession_ok:
  assumes "\<forall>p \<in> set (sessionPaths sessionId). fs p \<noteq> None \<longrightarrow> \<not> locked p"
  shows "deleteSession locked fs sessionId = (True, removeAll fs (sessionPaths sessionId))"
proof -
  let ?d = "getDbPath sessionId"
  let ?w = "?d @ ''-wal''"
  let ?s = "?d @ ''-shm''"
  have l: "fs ?d \<noteq> None \<longrightarrow> \<not> locked ?d" "fs ?w \<noteq> None \<longrightarrow> \<not> locked ?w"
    "fs ?s \<noteq> None \<longrightarrow> \<not> locked ?s"
    using assms by (simp_all add: sessionPaths_def)
  have s1: "unlinkIfExists locked fs ?d = Inr (fs(?d := None))"
    using l(1) by (rule unlinkIfExists_ok)
  have s2: "unlinkIfExists locked (fs(?d := None)) ?w = Inr (fs(?d := None, ?w := None))"
    using l(2) by (intro unlinkIfExists_ok) simp
  have s3: "unlinkIfExists locked (fs(?d := None, ?w := None)) ?s
              = Inr (fs(?d := None, ?w := None, ?s := None))"
    using l(3) by (intro unlinkIfExists_ok) simp
  show ?thesis
    unfolding deleteSession_def Let_def removeAll_sessionPaths by (simp add: s1 s2 s3)
qed

lemma removeAll_idem: "removeAll (removeAll fs ps) ps = removeAll fs ps"
  by (rule ext) (simp add: removeAll_def)

text \<open>
  C7, as the code has it. When no existing path of the session refuses removal,
  \<^verbatim>\<open>deleteSession\<close> returns \<^verbatim>\<open>true\<close> and leaves none of the three paths behind, every other
  path untouched; this is so also when the primary file was already absent, and a second
  call returns \<^verbatim>\<open>true\<close> again and changes nothing. (\<^verbatim>\<open>false\<close> is returned only from the
  \<^verbatim>\<open>catch\<close>, that is when a removal throws.)
\<close>

theorem deleteSession_true_and_idempotent:
  assumes "\<forall>p \<in> set (sessionPaths sessionId). fs p \<noteq> None \<longrightarrow> \<not> locked p"
  shows "deleteSession locked fs sessionId = (True, removeAll fs (sessionPaths sessionId))
       \<and> deleteSession locked (removeAll fs (sessionPaths sessionId)) sessionId
           = (True, removeAll fs (sessionPaths sessionId))
       \<and> (\<forall>p \<in> set (sessionPaths sessionId). removeAll fs (sessionPaths sessionId) p = None)
       \<and> (\<forall>p. p \<notin> set (sessionPaths sessionId)
              \<longrightarrow> removeAll fs (sessionPaths sessionId) p = fs p)"
proof -
  let ?fs' = "removeAll fs (sessionPaths sessionId)"
  have 1: "deleteSession locked fs sessionId = (True, ?fs')"
    using assms by (rule deleteSession_ok)
  have "\<forall>p \<in> set (sessionPaths sessionId). ?fs' p \<noteq> None \<longrightarrow> \<not> locked p"
    by (simp add: removeAll_def)
  then have 2: "deleteSession locked ?fs' sessionId = (True, ?fs')"
    using deleteSession_ok[of sessionId ?fs' locked] by (simp add: removeAll_idem)
  show ?thesis using 1 2 by (simp add: removeAll_def)
qed

theorem deleteSession_true_and_idempotent_witness:
  "deleteSession noLock fsOneSession ''chat_1_abc''
     = (True, removeAll fsOneSession (sessionPaths ''chat_1_abc''))
   \<and> deleteSession noLock (removeAll fsOneSession (sessionPaths ''chat_1_abc'')) ''chat_1_abc''
     = (True, removeAll fsOneSession (sessionPaths ''chat_1_abc''))
   \<and> fsOneSession (getDbPath ''chat_1_abc'') = Some (DbFile emptyDb)
   \<and> removeAll fsOneSession (sessionPaths ''chat_1_abc'') (getDbPath ''chat_1_abc'') = None"
proof -
  have h: "\<forall>p \<in> set (sessionPaths ''chat_1_abc'').
             fsOneSession p \<noteq> None \<longrightarrow> \<not> noLock p"
    by (simp add: noLock_def)
  have a: "fsOneSession (getDbPath ''chat_1_abc'') = Some (DbFile emptyDb)"
    by (simp add: fsOneSession_def)
  have b: "removeAll fsOneSession (sessionPaths ''chat_1_abc'') (getDbPath ''chat_1_abc'') = None"
    by (simp add: sessionPaths_def removeAll_def)
  from deleteSession_true_and_idempotent[OF h] a b show ?thesis
    by blast
qed

text \<open>
  C7 as the specification states it fails: with the primary file absent (here: no file
  at all) the call returns \<^verbatim>\<open>true\<close>, not \<^verbatim>\<open>false\<close>; so does the second call on a session
  just deleted.
\<close>

theorem deleteSession_absent_counterexample:
  "fst (deleteSession noLock Map.empty ''chat_1_abc'') \<noteq> False
   \<and> fst (deleteSession noLock (snd (deleteSession noLock fsOneSession ''chat_1_abc''))
            ''chat_1_abc'') \<noteq> False"
  by (simp add: deleteSession_def unlinkIfExists_def unlinkSync_def existsSync_def
      fsOneSession_def noLock_def Let_def getDbPath_def getDbDir_def)

section \<open>Properties of the join and of the ordering\<close>

lemma filter_unique_key:
  "distinct (map key ms) \<Longrightarrow>
   length (filter (\<lambda>m. k = key m \<and> P m) ms) = (if \<exists>m\<in>set ms. key m = k \<and> P m then 1 else 0)"
proof (induction ms)
  case Nil
  then show ?case by simp
next
  case (Cons a ms)
  then show ?case by (auto simp: image_iff)
qed

lemma concat_map_if: "concat (map (\<lambda>x. if Q x then [x] else []) xs) = filter Q xs"
  by (induction xs) auto

lemma map_fst_joinMember:
  assumes "distinct (map mr_id (member_tbl db))"
  shows "map fst (joinMember db cond)
           = filter (\<lambda>msg. \<exists>m\<in>set (member_tbl db). mr_id m = sender_id msg \<and> cond msg m)
               (message_tbl db)"
proof -
  have inner: "map fst (map (\<lambda>m. (msg, m))
                  (filter (\<lambda>m. sender_id msg = mr_id m \<and> cond msg m) (member_tbl db)))
               = (if \<exists>m\<in>set (member_tbl db). mr_id m = sender_id msg \<and> cond msg m
                  then [msg] else [])" for msg
  proof -
    have "map fst (map (\<lambda>m. (msg, m))
                  (filter (\<lambda>m. sender_id msg = mr_id m \<and> cond msg m) (member_tbl db)))
          = replicate (length (filter (\<lambda>m. sender_id msg = mr_id m \<and> cond msg m) (member_tbl db))) msg"
      by (simp add: map_replicate_const comp_def)
    also have "\<dots> = (if \<exists>m\<in>set (member_tbl db). mr_id m = sender_id msg \<and> cond msg m
                  then [msg] else [])"
      using filter_unique_key[OF assms, of "sender_id msg" "cond msg"] by simp
    finally show ?thesis .
  qed
  have "map fst (joinMember db cond)
        = concat (map (\<lambda>msg. map fst (map (\<lambda>m. (msg, m))
                  (filter (\<lambda>m. sender_id msg = mr_id m \<and> cond msg m) (member_tbl db))))
            (message_tbl db))"
    by (simp add: joinMember_def map_concat comp_def)
  also have "\<dots> = filter (\<lambda>msg. \<exists>m\<in>set (member_tbl db). mr_id m = sender_id msg \<and> cond msg m)
               (message_tbl db)"
    unfolding inner by (rule concat_map_if)
  finally show ?thesis .
qed

lemma set_joinMember:
  "set (joinMember db cond)
     = {(msg, m). msg \<in> set (message_tbl db) \<and> m \<in> set (member_tbl db) \<and>
                  sender_id msg = mr_id m \<and> cond msg m}"
  by (auto simp: joinMember_def)

lemma r_id_toResult [simp]: "r_id (toResult msg m) = message_id msg"
  and r_timestamp_toResult [simp]: "r_timestamp (toResult msg m) = ts msg"
  and r_type_toResult [simp]: "r_type (toResult msg m) = msg_type msg"
  and r_content_toResult [simp]: "r_content (toResult msg m) = content msg"
  by (simp_all add: toResult_def)

lemma map_r_id_selectJoin:
  "map r_id (selectJoin db cond) = map message_id (map fst (joinMember db cond))"
  by (simp add: selectJoin_def comp_def case_prod_beta)

lemma rev_sqlLimit_rev:
  "rev (sqlLimit n (rev S)) = (if n < 0 then S else drop (length S - nat n) S)"
  by (simp add: sqlLimit_def rev_take)

lemma sorted_key_split:
  assumes "sorted (map f S)" "x \<in> set (take k S)" "y \<in> set (drop k S)"
  shows "f x \<le> f y"
proof -
  have "sorted (map f (take k S @ drop k S))" using assms(1) by simp
  then show ?thesis using assms(2,3) unfolding map_append sorted_append by auto
qed

lemma distinct_map_sort_key:
  "distinct (map f (sort_key k xs)) = distinct (map f xs)"
proof -
  have "mset (map f (sort_key k xs)) = mset (map f xs)" by simp
  then show ?thesis by (rule mset_eq_imp_distinct_iff)
qed

section \<open>Properties of getRecentMessages\<close>

lemma recent_exists_iff:
  "(\<exists>m\<in>set (member_tbl db). mr_id m = sender_id msg \<and> recentCond tf msg m)
     = matchesRecent db tf msg"
  by (auto simp: recentCond_def matchesRecent_def list_ex_iff)

lemma recent_rows:
  assumes "distinct (map mr_id (member_tbl db))"
  shows "map r_id (selectJoin db (recentCond tf))
           = map message_id (filter (matchesRecent db tf) (message_tbl db))"
  by (simp add: map_r_id_selectJoin map_fst_joinMember[OF assms] recent_exists_iff)

lemma selectJoin_recent_elem:
  assumes "r \<in> set (selectJoin db (recentCond tf))"
  shows "r_type r = 0 \<and> r_content r \<noteq> None \<and> r_content r \<noteq> Some [] \<and>
         (\<exists>msg\<in>set (message_tbl db). matchesRecent db tf msg \<and>
             message_id msg = r_id r \<and> ts msg = r_timestamp r)"
proof -
  from assms obtain msg m where mm: "(msg, m) \<in> set (joinMember db (recentCond tf))"
    and r: "r = toResult msg m"
    by (auto simp: selectJoin_def)
  from mm have a: "msg \<in> set (message_tbl db)" "m \<in> set (member_tbl db)"
    "sender_id msg = mr_id m" "recentCond tf msg m"
    by (simp_all add: set_joinMember)
  then have "matchesRecent db tf msg"
    using recent_exists_iff[of db msg tf] by auto
  with a r show ?thesis by (auto simp: recentCond_def)
qed

lemma selectJoin_recent_intro:
  assumes "msg \<in> set (message_tbl db)" "matchesRecent db tf msg"
  shows "\<exists>r\<in>set (selectJoin db (recentCond tf)). r_id r = message_id msg \<and> r_timestamp r = ts msg"
proof -
  from assms(2) obtain m where "m \<in> set (member_tbl db)" "mr_id m = sender_id msg"
    "recentCond tf msg m"
    using recent_exists_iff[of db msg tf] by auto
  with assms(1) have "(msg, m) \<in> set (joinMember db (recentCond tf))"
    by (simp add: set_joinMember)
  then have "toResult msg m \<in> set (selectJoin db (recentCond tf))"
    by (force simp: selectJoin_def)
  then show ?thesis by (intro bexI[of _ "toResult msg m"]) simp_all
qed

text \<open>
  C6. On an opened store that meets the schema's constraints, \<^verbatim>\<open>getRecentMessages\<close> returns
  only rows of stored messages of type 0 with a non-empty content, inside the filter, from
  a sender that is not the system sender; the rows are in ascending order of timestamp;
  every matching message left out is no later than every row returned (the window is the
  most recent matches), the window has \<open>limit\<close> rows or all matches when there are fewer
  (all of them for a negative \<open>limit\<close>); and \<open>total\<close> is the number of all matching
  messages, whatever the limit.
\<close>

theorem getRecentMessages_window:
  assumes "openDb sessionId = Some db" and "wf_store db"
  shows "(\<forall>r\<in>set (messages (getRecentMessages openDb sessionId tf limit)).
            r_type r = 0 \<and> r_content r \<noteq> None \<and> r_content r \<noteq> Some [] \<and>
            (\<exists>msg\<in>set (message_tbl db). matchesRecent db tf msg \<and>
                message_id msg = r_id r \<and> ts msg = r_timestamp r))
       \<and> sorted (map r_timestamp (messages (getRecentMessages openDb sessionId tf limit)))
       \<and> distinct (map r_id (messages (getRecentMessages openDb sessionId tf limit)))
       \<and> (\<forall>msg\<in>set (message_tbl db).
             matchesRecent db tf msg \<and>
             message_id msg \<notin> set (map r_id (messages (getRecentMessages openDb sessionId tf limit)))
             \<longrightarrow> (\<forall>r\<in>set (messages (getRecentMessages openDb sessionId tf limit)).
                    ts msg \<le> r_timestamp r))
       \<and> length (messages (getRecentMessages openDb sessionId tf limit))
           = (if limit < 0 then total (getRecentMessages openDb sessionId tf limit)
              else min (nat limit) (total (getRecentMessages openDb sessionId tf limit)))
       \<and> total (getRecentMessages openDb sessionId tf limit)
           = length (filter (matchesRecent db tf) (message_tbl db))"
proof -
  define J where "J = selectJoin db (recentCond tf)"
  define S where "S = sort_key r_timestamp J"
  define k where "k = (if limit < 0 then 0 else length S - nat limit)"
  let ?P = "getRecentMessages openDb sessionId tf limit"
  have dm: "distinct (map mr_id (member_tbl db))" and dg: "distinct (map message_id (message_tbl db))"
    using assms(2) by (simp_all add: wf_store_def)
  have msgs: "messages ?P = drop k S"
    using assms(1)
    by (simp add: getRecentMessages_def Let_def orderByTsDesc_def rev_sqlLimit_rev J_def S_def k_def)
  have lenJ: "length J = length (joinMember db (recentCond tf))"
    by (simp add: J_def selectJoin_def)
  have tot: "total ?P = length S"
    using assms(1) by (simp add: getRecentMessages_def Let_def S_def lenJ)
  have idsJ: "map r_id J = map message_id (filter (matchesRecent db tf) (message_tbl db))"
    unfolding J_def by (rule recent_rows[OF dm])
  have setS: "set S = set J" by (simp add: S_def)
  have sortedS: "sorted (map r_timestamp S)" by (simp add: S_def)
  have distS: "distinct (map r_id S)"
    unfolding S_def distinct_map_sort_key idsJ using dg by (simp add: distinct_map_filter)
  have c1: "\<forall>r\<in>set (drop k S).
            r_type r = 0 \<and> r_content r \<noteq> None \<and> r_content r \<noteq> Some [] \<and>
            (\<exists>msg\<in>set (message_tbl db). matchesRecent db tf msg \<and>
                message_id msg = r_id r \<and> ts msg = r_timestamp r)"
  proof
    fix r assume "r \<in> set (drop k S)"
    then have "r \<in> set S" by (rule in_set_dropD)
    then have "r \<in> set J" using setS by simp
    then show "r_type r = 0 \<and> r_content r \<noteq> None \<and> r_content r \<noteq> Some [] \<and>
            (\<exists>msg\<in>set (message_tbl db). matchesRecent db tf msg \<and>
                message_id msg = r_id r \<and> ts msg = r_timestamp r)"
      unfolding J_def by (rule selectJoin_recent_elem)
  qed
  have c2: "sorted (map r_timestamp (drop k S))"
    using sortedS by (simp add: drop_map[symmetric] sorted_wrt_drop)
  have c3: "distinct (map r_id (drop k S))"
    using distS by (simp add: drop_map[symmetric])
  have c4: "\<forall>msg\<in>set (message_tbl db).
             matchesRecent db tf msg \<and> message_id msg \<notin> set (map r_id (drop k S))
             \<longrightarrow> (\<forall>r\<in>set (drop k S). ts msg \<le> r_timestamp r)"
  proof (intro ballI impI)
    fix msg r
    assume m: "msg \<in> set (message_tbl db)"
      and h: "matchesRecent db tf msg \<and> message_id msg \<notin> set (map r_id (drop k S))"
      and r: "r \<in> set (drop k S)"
    from selectJoin_recent_intro[OF m] h obtain r0 where r0: "r0 \<in> set J"
      "r_id r0 = message_id msg" "r_timestamp r0 = ts msg"
      unfolding J_def by blast
    have "r0 \<notin> set (drop k S)" using h r0(2) by force
    moreover have "r0 \<in> set (take k S @ drop k S)" using r0(1) setS by simp
    ultimately have "r0 \<in> set (take k S)" by (simp del: append_take_drop_id)
    from sorted_key_split[OF sortedS this r] r0(3) show "ts msg \<le> r_timestamp r" by simp
  qed
  have c5: "length (drop k S) = (if limit < 0 then length S else min (nat limit) (length S))"
    by (auto simp: k_def)
  have c6: "length S = length (filter (matchesRecent db tf) (message_tbl db))"
  proof -
    have "length S = length (map r_id J)" by (simp add: S_def)
    then show ?thesis unfolding idsJ by simp
  qed
  show ?thesis
    unfolding msgs tot using c1 c2 c3 c4 c5 c6 by blast
qed

lemma wf_exStore: "wf_store exStore"
  by (simp add: wf_store_def exStore_def)

lemma openEx_1: "openEx ''chat_1_abc'' = Some exStore"
  by (simp add: openEx_def)

lemma recent_example:
  "getRecentMessages openEx ''chat_1_abc'' None 2
     = \<lparr>messages =
          [\<lparr>r_id = 2, senderName = ''Bobby'', senderPlatformId = ''u2'',
            r_content = Some ''hello'', r_timestamp = 150, r_type = 0\<rparr>,
           \<lparr>r_id = 7, senderName = ''Alice'', senderPlatformId = ''u1'',
            r_content = Some ''bye'', r_timestamp = 300, r_type = 0\<rparr>],
        total = 4\<rparr>"
  by (simp add: getRecentMessages_def openEx_def exStore_def joinMember_def selectJoin_def
      recentCond_def buildTimeFilter_def notSystem_def systemName_def
      toResult_def orderByTsDesc_def sqlLimit_def)

theorem getRecentMessages_window_witness:
  "openEx ''chat_1_abc'' = Some exStore \<and> wf_store exStore
   \<and> sorted (map r_timestamp (messages (getRecentMessages openEx ''chat_1_abc'' None 2)))
   \<and> length (messages (getRecentMessages openEx ''chat_1_abc'' None 2)) = 2
   \<and> total (getRecentMessages openEx ''chat_1_abc'' None 2)
       = length (filter (matchesRecent exStore None) (message_tbl exStore))
   \<and> map r_id (messages (getRecentMessages openEx ''chat_1_abc'' None 2)) = [2, 7]
   \<and> total (getRecentMessages openEx ''chat_1_abc'' None 2) = 4"
proof -
  have e: "map r_id (messages (getRecentMessages openEx ''chat_1_abc'' None 2)) = [2, 7]"
    "total (getRecentMessages openEx ''chat_1_abc'' None 2) = 4"
    by (simp_all add: recent_example)
  from getRecentMessages_window[of openEx "''chat_1_abc''" exStore None 2, OF openEx_1 wf_exStore]
    e openEx_1 wf_exStore
  show ?thesis by simp
qed

section \<open>Properties of searchMessages\<close>



section \<open>Properties of getMessageContext\<close>



section \<open>The context window of getMessageContext\<close>














section \<open>Properties of getMemberActivity\<close>




















section \<open>Properties of the import\<close>

lemma tick_Inr: "tick c = Inr c' \<Longrightarrow> conn_db c' = conn_db c"
  by (auto simp: tick_def split: option.splits nat.splits)

lemma run_Inr: "run stmt c = Inr c' \<Longrightarrow> conn_db c' = stmt (conn_db c)"
  by (auto simp: run_def split: sum.splits dest: tick_Inr)

lemma tick_None: "conn_faults c = None \<Longrightarrow> tick c = Inr c"
  by (simp add: tick_def)

lemma run_None:
  "conn_faults c = None \<Longrightarrow> run stmt c = Inr (c\<lparr>conn_db := stmt (conn_db c)\<rparr>)"
  by (simp add: run_def tick_None)

lemma nextId_fresh: "i \<in> set ids \<Longrightarrow> i < nextId ids"
proof -
  assume "i \<in> set ids"
  then have "i \<le> Max (set (0 # ids))" by (intro Max_ge) simp_all
  then show ?thesis by (simp add: nextId_def)
qed

lemma find_unique:
  "distinct (map key xs) \<Longrightarrow> x \<in> set xs \<Longrightarrow> find (\<lambda>y. key y = key x) xs = Some x"
proof (induction xs)
  case Nil
  then show ?case by simp
next
  case (Cons a xs)
  then show ?case by (auto simp: image_iff)
qed

lemma getMemberId_present:
  assumes "distinct (map platform_id (member d))" "m \<in> set (member d)"
  shows "getMemberId d (platform_id m) = Some (member_id m)"
  using find_unique[OF assms] by (simp add: getMemberId_def)

lemma membersInv_step:
  assumes inv: "membersInv d idm"
    and get: "getMemberId (insertMember pid n d) pid = Some i"
  shows "membersInv (insertMember pid n d) (AList.update pid i idm)"
proof (cases "pid \<in> set (map platform_id (member d))")
  case True
  then obtain m where m: "m \<in> set (member d)" "platform_id m = pid" by auto
  have same: "insertMember pid n d = d" using True by (simp add: insertMember_def)
  have "getMemberId d pid = Some (member_id m)"
    using getMemberId_present[of d m] inv m by (simp add: membersInv_def)
  then have i: "i = member_id m" using get same by simp
  have "map_of idm pid = Some i" using inv m i by (auto simp: membersInv_def)
  then have "map_of (AList.update pid i idm) = map_of idm"
    by (auto simp: update_conv')
  then show ?thesis using inv same by (simp add: membersInv_def)
next
  case False
  define new where "new = \<lparr>member_id = nextId (map member_id (member d)), platform_id = pid,
                  member_name = n\<rparr>"
  have mem: "member (insertMember pid n d) = member d @ [new]"
    using False by (simp add: insertMember_def new_def)
  have fresh: "member_id new \<notin> set (map member_id (member d))"
    using nextId_fresh[of "member_id new" "map member_id (member d)"] by (auto simp: new_def)
  have pidnew: "platform_id new = pid" by (simp add: new_def)
  have d1: "distinct (map member_id (member d @ [new]))"
    using inv fresh by (simp add: membersInv_def)
  have d2: "distinct (map platform_id (member d @ [new]))"
    using inv False pidnew by (simp add: membersInv_def)
  have "getMemberId (insertMember pid n d) pid = Some (member_id new)"
    using getMemberId_present[of "insertMember pid n d" new] d2 pidnew by (simp add: mem)
  then have i: "i = member_id new" using get by simp
  have a: "\<forall>m\<in>set (member d @ [new]). map_of (AList.update pid i idm) (platform_id m) = Some (member_id m)"
  proof
    fix m assume "m \<in> set (member d @ [new])"
    then consider "m \<in> set (member d)" | "m = new" by auto
    then show "map_of (AList.update pid i idm) (platform_id m) = Some (member_id m)"
    proof cases
      case 1
      then have "platform_id m \<noteq> pid" using False by auto
      then show ?thesis using inv 1 by (simp add: update_conv' membersInv_def)
    next
      case 2
      then show ?thesis using i pidnew by (simp add: update_conv')
    qed
  qed
  have b: "\<forall>q j. map_of (AList.update pid i idm) q = Some j \<longrightarrow>
           (\<exists>m\<in>set (member d @ [new]). platform_id m = q \<and> member_id m = j)"
  proof (intro allI impI)
    fix q j assume h: "map_of (AList.update pid i idm) q = Some j"
    show "\<exists>m\<in>set (member d @ [new]). platform_id m = q \<and> member_id m = j"
    proof (cases "q = pid")
      case True
      then have "j = i" using h by (simp add: update_conv')
      then show ?thesis using True i pidnew by auto
    next
      case False
      then have "map_of idm q = Some j" using h by (simp add: update_conv')
      then show ?thesis using inv by (auto simp: membersInv_def)
    qed
  qed
  show ?thesis unfolding membersInv_def mem using d1 d2 a b by blast
qed

lemma insertMember_pids:
  "platform_id ` set (member (insertMember pid n d)) = insert pid (platform_id ` set (member d))"
  by (auto simp: insertMember_def)

lemma insertMember_other:
  "meta (insertMember pid n d) = meta d"
  "member_name_history (insertMember pid n d) = member_name_history d"
  "message (insertMember pid n d) = message d"
  by (simp_all add: insertMember_def)

lemma insertMembers_Inr:
  assumes "insertMembers ms (c, idm) = Inr (c', idm')" "membersInv (conn_db c) idm"
  shows "membersInv (conn_db c') idm'
       \<and> set (map platform_id (member (conn_db c')))
           = set (map platform_id (member (conn_db c))) \<union> set (map pm_platformId ms)
       \<and> meta (conn_db c') = meta (conn_db c)
       \<and> member_name_history (conn_db c') = member_name_history (conn_db c)
       \<and> message (conn_db c') = message (conn_db c)"
  using assms
proof (induction ms arbitrary: c idm)
  case Nil
  then show ?case by simp
next
  case (Cons mem ms)
  from Cons.prems(1) obtain c1 c2 i where
    r1: "run (insertMember (pm_platformId mem) (pm_name mem)) c = Inr c1"
    and r2: "tick c1 = Inr c2"
    and r3: "getMemberId (conn_db c2) (pm_platformId mem) = Some i"
    and r4: "insertMembers ms (c2, AList.update (pm_platformId mem) i idm) = Inr (c', idm')"
    by (auto split: sum.splits option.splits)
  have db2: "conn_db c2 = insertMember (pm_platformId mem) (pm_name mem) (conn_db c)"
    using run_Inr[OF r1] tick_Inr[OF r2] by simp
  have inv2: "membersInv (conn_db c2) (AList.update (pm_platformId mem) i idm)"
    unfolding db2 by (rule membersInv_step[OF Cons.prems(2)]) (use r3 db2 in simp)
  from Cons.IH[OF r4 inv2] show ?case
    unfolding db2 by (auto simp: insertMember_pids insertMember_other)
qed

lemma processMessage_Inr:
  assumes "processMessage idm msg (c, tr) = Inr (c', tr')"
  obtains
    (skip) "map_of idm (p_senderPlatformId msg) = None" "c' = c" "tr' = tr"
  | (first) i where "map_of idm (p_senderPlatformId msg) = Some i"
      "map_of tr (p_senderPlatformId msg) = None"
      "conn_db c' = insertNameHistory i (p_senderName msg) (p_timestamp msg) None
                      (insertMessage i (p_timestamp msg) (p_type msg) (p_content msg) (conn_db c))"
      "tr' = AList.update (p_senderPlatformId msg) (p_senderName msg, p_timestamp msg) tr"
  | (rename) i x where "map_of idm (p_senderPlatformId msg) = Some i"
      "map_of tr (p_senderPlatformId msg) = Some x" "fst x \<noteq> p_senderName msg"
      "conn_db c' = insertNameHistory i (p_senderName msg) (p_timestamp msg) None
                      (updateNameHistoryEndTs (p_timestamp msg) i
                        (insertMessage i (p_timestamp msg) (p_type msg) (p_content msg) (conn_db c)))"
      "tr' = AList.update (p_senderPlatformId msg) (p_senderName msg, p_timestamp msg) tr"
  | (same) i x where "map_of idm (p_senderPlatformId msg) = Some i"
      "map_of tr (p_senderPlatformId msg) = Some x" "fst x = p_senderName msg"
      "conn_db c' = insertMessage i (p_timestamp msg) (p_type msg) (p_content msg) (conn_db c)"
      "tr' = AList.update (p_senderPlatformId msg) (p_senderName msg, p_timestamp msg) tr"
proof (cases "map_of idm (p_senderPlatformId msg)")
  case None
  then show ?thesis using assms skip by (simp add: processMessage_def)
next
  case (Some i)
  from assms Some obtain c1 where
    r1: "run (insertMessage i (p_timestamp msg) (p_type msg) (p_content msg)) c = Inr c1"
    by (auto simp: processMessage_def split: sum.splits)
  note d1 = run_Inr[OF r1]
  show ?thesis
  proof (cases "map_of tr (p_senderPlatformId msg)")
    case None
    from assms Some r1 None obtain c2 where
      r2: "run (insertNameHistory i (p_senderName msg) (p_timestamp msg) None) c1 = Inr c2"
      and e: "c' = c2" "tr' = AList.update (p_senderPlatformId msg) (p_senderName msg, p_timestamp msg) tr"
      by (auto simp: processMessage_def Let_def split: sum.splits)
    show ?thesis using first[OF Some None] run_Inr[OF r2] d1 e by simp
  next
    case x: (Some x)
    show ?thesis
    proof (cases "fst x = p_senderName msg")
      case True
      from assms Some r1 x True have "c' = c1"
        "tr' = AList.update (p_senderPlatformId msg) (p_senderName msg, p_timestamp msg) tr"
        by (auto simp: processMessage_def Let_def)
      then show ?thesis using same[OF Some x True] d1 by simp
    next
      case False
      from assms Some r1 x False obtain c2 c3 where
        r2: "run (updateNameHistoryEndTs (p_timestamp msg) i) c1 = Inr c2"
        and r3: "run (insertNameHistory i (p_senderName msg) (p_timestamp msg) None) c2 = Inr c3"
        and e: "c' = c3" "tr' = AList.update (p_senderPlatformId msg) (p_senderName msg, p_timestamp msg) tr"
        by (auto simp: processMessage_def Let_def split: sum.splits)
      show ?thesis using rename[OF Some x False] run_Inr[OF r2] run_Inr[OF r3] d1 e by simp
    qed
  qed
qed

lemma memberHistory_insertMessage [simp]:
  "memberHistory (insertMessage i t ty ct d) j = memberHistory d j"
  by (simp add: memberHistory_def insertMessage_def)

lemma memberHistory_insertNameHistory:
  "memberHistory (insertNameHistory i n t e d) j
     = memberHistory d j @
       (if j = i then [\<lparr>history_id = nextId (map history_id (member_name_history d)),
                        h_member_id = i, h_name = n, start_ts = t, end_ts = e\<rparr>] else [])"
  by (simp add: memberHistory_def insertNameHistory_def)

lemma filter_map_close:
  "filter (\<lambda>h. h_member_id h = j)
     (map (\<lambda>h. if h_member_id h = i \<and> end_ts h = None then h\<lparr>end_ts := Some t\<rparr> else h) hs)
   = (if j = i then map (closeAt t) (filter (\<lambda>h. h_member_id h = j) hs)
      else filter (\<lambda>h. h_member_id h = j) hs)"
  by (induction hs) (auto simp: closeAt_def)

lemma memberHistory_updateEnd:
  "memberHistory (updateNameHistoryEndTs t i d) j
     = (if j = i then map (closeAt t) (memberHistory d j) else memberHistory d j)"
  by (simp add: memberHistory_def updateNameHistoryEndTs_def filter_map_close)

lemma timeline_close_snoc:
  assumes "timeline H" "H \<noteq> []" "\<forall>h\<in>set H. start_ts h \<le> t" "start_ts new = t" "end_ts new = None"
  shows "timeline (map (closeAt t) H @ [new])"
  using assms
proof (induction H rule: timeline.induct)
  case 1
  then show ?case by simp
next
  case (2 h)
  then show ?case by (simp add: closeAt_def)
next
  case (3 h g hs)
  then have "timeline (map (closeAt t) (g # hs) @ [new])" by simp
  moreover have "closeAt t h = h" using 3 by (simp add: closeAt_def)
  moreover have "start_ts (closeAt t g) = start_ts g" by (simp add: closeAt_def)
  ultimately show ?case using 3 by simp
qed

lemma history_other_stmts [simp]:
  "member_name_history (insertMessage i t ty ct d) = member_name_history d"
  "member (insertMessage i t ty ct d) = member d"
  "member (insertNameHistory i n t e d) = member d"
  "member (updateNameHistoryEndTs t i d) = member d"
  "meta (insertMessage i t ty ct d) = meta d"
  "meta (insertNameHistory i n t e d) = meta d"
  "meta (updateNameHistoryEndTs t i d) = meta d"
  "message (insertNameHistory i n t e d) = message d"
  "message (updateNameHistoryEndTs t i d) = message d"
  by (simp_all add: insertMessage_def insertNameHistory_def updateNameHistoryEndTs_def)

lemma start_ts_bound_insert:
  assumes "\<forall>h\<in>set (member_name_history d). start_ts h \<le> lo" "lo \<le> t"
  shows "\<forall>h\<in>set (member_name_history (insertNameHistory i n t e d)). start_ts h \<le> t"
  using assms by (auto simp: insertNameHistory_def)

lemma start_ts_bound_update:
  assumes "\<forall>h\<in>set (member_name_history d). start_ts h \<le> lo"
  shows "\<forall>h\<in>set (member_name_history (updateNameHistoryEndTs t i d)). start_ts h \<le> lo"
  using assms by (auto simp: updateNameHistoryEndTs_def)

lemma membersInv_inj: "membersInv d idm \<Longrightarrow> idmInj idm"
  unfolding membersInv_def idmInj_def
  by (metis distinct_map inj_on_eq_iff)

lemma trackerInv_weaken: "trackerInv idm d tr lo \<Longrightarrow> lo \<le> t \<Longrightarrow> trackerInv idm d tr t"
  unfolding trackerInv_def by (meson order_trans)

lemma trackerInv_step:
  assumes pm: "processMessage idm msg (c, tr) = Inr (c', tr')"
    and inv: "trackerInv idm (conn_db c) tr lo"
    and lo: "lo \<le> p_timestamp msg"
    and inj: "idmInj idm"
  shows "trackerInv idm (conn_db c') tr' (p_timestamp msg)"
proof -
  let ?pid = "p_senderPlatformId msg"
  let ?t = "p_timestamp msg"
  let ?n = "p_senderName msg"
  let ?d = "conn_db c"
  have inv1: "\<And>pid i. map_of idm pid = Some i \<Longrightarrow>
         (case map_of tr pid of
            None \<Rightarrow> memberHistory ?d i = []
          | Some x \<Rightarrow> memberHistory ?d i \<noteq> [] \<and> h_name (last (memberHistory ?d i)) = fst x)"
    and inv2: "\<And>i. timeline (memberHistory ?d i)"
    and inv3: "\<forall>h\<in>set (member_name_history ?d). start_ts h \<le> lo"
    and inv4: "distinct (map fst tr)"
    using inv unfolding trackerInv_def by blast+
  have bound: "\<forall>h\<in>set (memberHistory ?d i). start_ts h \<le> ?t" for i
    using inv3 lo by (auto simp: memberHistory_def)
  from pm show ?thesis
  proof (cases rule: processMessage_Inr)
    case skip
    then show ?thesis using trackerInv_weaken[OF inv lo] by simp
  next
    case (first i)
    let ?m = "insertMessage i ?t (p_type msg) (p_content msg) ?d"
    define new where "new = \<lparr>history_id = nextId (map history_id (member_name_history ?m)),
                        h_member_id = i, h_name = ?n, start_ts = ?t, end_ts = None\<rparr>"
    have H: "memberHistory (conn_db c') j = memberHistory ?d j @ (if j = i then [new] else [])" for j
      unfolding first(3) new_def by (simp add: memberHistory_insertNameHistory)
    have Hi: "memberHistory ?d i = []" using inv1[OF first(1)] first(2) by simp
    have tr': "map_of tr' = (map_of tr)(?pid \<mapsto> (?n, ?t))"
      unfolding first(4) by (rule update_conv')
    have c1: "case map_of tr' pid of
            None \<Rightarrow> memberHistory (conn_db c') j = []
          | Some x \<Rightarrow> memberHistory (conn_db c') j \<noteq> [] \<and> h_name (last (memberHistory (conn_db c') j)) = fst x"
      if "map_of idm pid = Some j" for pid j
    proof (cases "pid = ?pid")
      case True
      then have "j = i" using that first(1) by simp
      then show ?thesis using True by (auto simp: tr' H new_def split: option.splits)
    next
      case False
      then have "j \<noteq> i" using that first(1) inj unfolding idmInj_def by blast
      then show ?thesis using False inv1[OF that] by (auto simp: tr' H split: option.splits)
    qed
    have c2: "timeline (memberHistory (conn_db c') j)" for j
      using inv2[of j] Hi by (cases "j = i") (simp_all add: H new_def)
    have c3: "\<forall>h\<in>set (member_name_history (conn_db c')). start_ts h \<le> ?t"
      unfolding first(3) by (rule start_ts_bound_insert[where lo=lo]) (use inv3 lo in simp_all)
    have c4: "distinct (map fst tr')" unfolding first(4) using inv4 by (rule distinct_update)
    show ?thesis unfolding trackerInv_def using c1 c2 c3 c4 by blast
  next
    case (rename i x)
    let ?m = "updateNameHistoryEndTs ?t i (insertMessage i ?t (p_type msg) (p_content msg) ?d)"
    define new where "new = \<lparr>history_id = nextId (map history_id (member_name_history ?m)),
                        h_member_id = i, h_name = ?n, start_ts = ?t, end_ts = None\<rparr>"
    have H: "memberHistory (conn_db c') j
               = (if j = i then map (closeAt ?t) (memberHistory ?d j) @ [new] else memberHistory ?d j)" for j
      unfolding rename(4) new_def
      by (simp add: memberHistory_insertNameHistory memberHistory_updateEnd)
    have Hi: "memberHistory ?d i \<noteq> []" using inv1[OF rename(1)] rename(2) by simp
    have tr': "map_of tr' = (map_of tr)(?pid \<mapsto> (?n, ?t))"
      unfolding rename(5) by (rule update_conv')
    have c1: "case map_of tr' pid of
            None \<Rightarrow> memberHistory (conn_db c') j = []
          | Some x \<Rightarrow> memberHistory (conn_db c') j \<noteq> [] \<and> h_name (last (memberHistory (conn_db c') j)) = fst x"
      if "map_of idm pid = Some j" for pid j
    proof (cases "pid = ?pid")
      case True
      then have "j = i" using that rename(1) by simp
      then show ?thesis using True by (auto simp: tr' H new_def split: option.splits)
    next
      case False
      then have "j \<noteq> i" using that rename(1) inj unfolding idmInj_def by blast
      then show ?thesis using False inv1[OF that] by (auto simp: tr' H split: option.splits)
    qed
    have "timeline (map (closeAt ?t) (memberHistory ?d i) @ [new])"
      by (rule timeline_close_snoc[OF inv2 Hi bound]) (simp_all add: new_def)
    then have c2: "timeline (memberHistory (conn_db c') j)" for j
      using inv2[of j] by (cases "j = i") (simp_all add: H)
    have "\<forall>h\<in>set (member_name_history ?m). start_ts h \<le> lo"
      by (rule start_ts_bound_update) (use inv3 in simp)
    then have c3: "\<forall>h\<in>set (member_name_history (conn_db c')). start_ts h \<le> ?t"
      unfolding rename(4) using lo by (rule start_ts_bound_insert)
    have c4: "distinct (map fst tr')" unfolding rename(5) using inv4 by (rule distinct_update)
    show ?thesis unfolding trackerInv_def using c1 c2 c3 c4 by blast
  next
    case (same i x)
    have H: "memberHistory (conn_db c') j = memberHistory ?d j" for j
      unfolding same(4) by simp
    have tr': "map_of tr' = (map_of tr)(?pid \<mapsto> (?n, ?t))"
      unfolding same(5) by (rule update_conv')
    have c1: "case map_of tr' pid of
            None \<Rightarrow> memberHistory (conn_db c') j = []
          | Some x \<Rightarrow> memberHistory (conn_db c') j \<noteq> [] \<and> h_name (last (memberHistory (conn_db c') j)) = fst x"
      if "map_of idm pid = Some j" for pid j
    proof (cases "pid = ?pid")
      case True
      then show ?thesis using inv1[OF that] same(2,3) by (auto simp: tr' H split: option.splits)
    next
      case False
      then show ?thesis using inv1[OF that] by (auto simp: tr' H split: option.splits)
    qed
    have c2: "timeline (memberHistory (conn_db c') j)" for j
      using inv2[of j] by (simp add: H)
    have c3: "\<forall>h\<in>set (member_name_history (conn_db c')). start_ts h \<le> ?t"
      unfolding same(4) using inv3 lo by auto
    have c4: "distinct (map fst tr')" unfolding same(5) using inv4 by (rule distinct_update)
    show ?thesis unfolding trackerInv_def using c1 c2 c3 c4 by blast
  qed
qed

lemma rowOf_insertMessage:
  "map rowOf (message (insertMessage i t ty ct d)) = map rowOf (message d) @ [(i, t, ty, ct)]"
  by (simp add: insertMessage_def rowOf_def)

lemma processMessage_frame:
  assumes "processMessage idm msg (c, tr) = Inr (c', tr')"
  shows "member (conn_db c') = member (conn_db c) \<and> meta (conn_db c') = meta (conn_db c)
       \<and> dom (map_of tr') = dom (map_of tr) \<union> (if knownSender idm msg then {p_senderPlatformId msg} else {})
       \<and> map rowOf (message (conn_db c'))
           = map rowOf (message (conn_db c)) @ (if knownSender idm msg then [sentRow idm msg] else [])"
  using assms
proof (cases rule: processMessage_Inr)
  case skip
  then show ?thesis by (simp add: knownSender_def)
next
  case (first i)
  then show ?thesis
    by (simp add: knownSender_def sentRow_def update_conv' rowOf_insertMessage)
next
  case (rename i x)
  then show ?thesis
    by (simp add: knownSender_def sentRow_def update_conv' rowOf_insertMessage)
next
  case (same i x)
  then show ?thesis
    by (simp add: knownSender_def sentRow_def update_conv' rowOf_insertMessage)
qed

lemma walkMessages_Inr:
  assumes "walkMessages idm msgs (c, tr) = Inr (c', tr')"
    and "trackerInv idm (conn_db c) tr lo" and "idmInj idm"
    and "sorted (map p_timestamp msgs)" and "\<forall>m\<in>set msgs. lo \<le> p_timestamp m"
  shows "(\<exists>lo'. trackerInv idm (conn_db c') tr' lo')
       \<and> member (conn_db c') = member (conn_db c) \<and> meta (conn_db c') = meta (conn_db c)
       \<and> dom (map_of tr') = dom (map_of tr) \<union> p_senderPlatformId ` set (filter (knownSender idm) msgs)
       \<and> map rowOf (message (conn_db c'))
           = map rowOf (message (conn_db c)) @ map (sentRow idm) (filter (knownSender idm) msgs)"
  using assms
proof (induction msgs arbitrary: c tr lo)
  case Nil
  then show ?case by auto
next
  case (Cons msg msgs)
  from Cons.prems(1) obtain c1 tr1 where
    p: "processMessage idm msg (c, tr) = Inr (c1, tr1)"
    and w: "walkMessages idm msgs (c1, tr1) = Inr (c', tr')"
    by (auto split: sum.splits)
  have lo: "lo \<le> p_timestamp msg" using Cons.prems(5) by simp
  have inv1: "trackerInv idm (conn_db c1) tr1 (p_timestamp msg)"
    by (rule trackerInv_step[OF p Cons.prems(2) lo Cons.prems(3)])
  have s: "sorted (map p_timestamp msgs)" "\<forall>m\<in>set msgs. p_timestamp msg \<le> p_timestamp m"
    using Cons.prems(4) by simp_all
  note IH = Cons.IH[OF w inv1 Cons.prems(3) s]
  note fr = processMessage_frame[OF p]
  show ?case
  proof (intro conjI)
    show "\<exists>lo'. trackerInv idm (conn_db c') tr' lo'" using IH by blast
    show "member (conn_db c') = member (conn_db c)" using IH fr by simp
    show "meta (conn_db c') = meta (conn_db c)" using IH fr by simp
    show "dom (map_of tr') = dom (map_of tr) \<union> p_senderPlatformId ` set (filter (knownSender idm) (msg # msgs))"
      using IH fr by auto
    show "map rowOf (message (conn_db c'))
           = map rowOf (message (conn_db c)) @ map (sentRow idm) (filter (knownSender idm) (msg # msgs))"
      using IH fr by simp
  qed
qed

lemma updateNames_Inr:
  assumes "updateNames tr c = Inr c'"
  shows "conn_db c' = fold (\<lambda>e. updateMemberName (fst (snd e)) (fst e)) tr (conn_db c)"
  using assms
proof (induction tr arbitrary: c)
  case Nil
  then show ?case by simp
next
  case (Cons e tr)
  obtain p x where e: "e = (p, x)" by (cases e)
  from Cons.prems e obtain c1 where r: "run (updateMemberName (fst x) p) c = Inr c1"
    and u: "updateNames tr c1 = Inr c'"
    by (auto split: sum.splits)
  show ?case using Cons.IH[OF u] run_Inr[OF r] e by simp
qed

lemma fold_updateMemberName:
  assumes "distinct (map fst tr)"
  shows "fold (\<lambda>e. updateMemberName (fst (snd e)) (fst e)) tr d
           = d\<lparr>member := map (renamed tr) (member d)\<rparr>"
  using assms
proof (induction tr arbitrary: d)
  case Nil
  have "map (renamed []) (member d) = member d"
    by (induction "member d") (auto simp: renamed_def map_idI)
  then show ?case by simp
next
  case (Cons e tr)
  obtain p x where e: "e = (p, x)" by (cases e)
  have nin: "map_of tr p = None" using Cons.prems e by (simp add: map_of_eq_None_iff)
  have "renamed tr (if platform_id m = p then m\<lparr>member_name := fst x\<rparr> else m)
          = renamed ((p, x) # tr) m" for m
    using nin by (simp add: renamed_def)
  then have mapeq: "map (renamed tr) (member (updateMemberName (fst x) p d))
               = map (renamed ((p, x) # tr)) (member d)"
    by (simp add: updateMemberName_def comp_def)
  have "fold (\<lambda>e. updateMemberName (fst (snd e)) (fst e)) (e # tr) d
          = fold (\<lambda>e. updateMemberName (fst (snd e)) (fst e)) tr (updateMemberName (fst x) p d)"
    using e by simp
  also have "\<dots> = (updateMemberName (fst x) p d)
                      \<lparr>member := map (renamed tr) (member (updateMemberName (fst x) p d))\<rparr>"
    using Cons.IH[of "updateMemberName (fst x) p d"] Cons.prems by simp
  also have "\<dots> = d\<lparr>member := map (renamed ((p, x) # tr)) (member d)\<rparr>"
    by (simp only: mapeq) (simp add: updateMemberName_def)
  finally show ?case using e by simp
qed

lemma renamed_fields [simp]:
  "member_id (renamed tr m) = member_id m" "platform_id (renamed tr m) = platform_id m"
  by (simp_all add: renamed_def split: option.splits)

lemma membersInv_renamed:
  "membersInv d idm \<Longrightarrow> membersInv (d\<lparr>member := map (renamed tr) (member d)\<rparr>) idm"
  by (simp add: membersInv_def comp_def)

lemma trackerInv_history:
  assumes "member_name_history d' = member_name_history d"
  shows "trackerInv idm d' tr lo = trackerInv idm d tr lo"
proof -
  have mh: "memberHistory d' = memberHistory d"
    by (rule ext) (simp add: memberHistory_def assms)
  show ?thesis unfolding trackerInv_def mh assms ..
qed

lemma trackerInv_start:
  "member_name_history d = [] \<Longrightarrow> trackerInv idm d [] lo"
  by (simp add: trackerInv_def memberHistory_def)

lemma membersInv_start: "member d = [] \<Longrightarrow> membersInv d []"
  by (simp add: membersInv_def)

lemma sorted_lower_bound:
  assumes "sorted (map f xs)"
  shows "\<forall>x\<in>set xs. (case xs of [] \<Rightarrow> 0 | y # _ \<Rightarrow> f y) \<le> f x"
  using assms by (cases xs) auto

lemma transaction_Inr:
  assumes "transaction body c = (Inr u, d)"
  obtains c0 c1 where "tick c = Inr c0" "body c0 = Inr c1" "d = conn_db c1"
  using assms tick_Inr
  by (auto simp: transaction_def split: sum.splits)

lemma transaction_Inl:
  assumes "transaction body c = (Inl e, d)"
  shows "d = conn_db c"
  using assms by (auto simp: transaction_def split: sum.splits)

lemma createDatabase_fresh:
  "fs (getDbPath sessionId) = None \<Longrightarrow>
   createDatabase fs sessionId = Inr (emptyDb, fs(getDbPath sessionId \<mapsto> DbFile emptyDb))"
  by (simp add: createDatabase_def)

lemma importData_fresh:
  assumes "fs (getDbPath sessionId) = None"
  shows "importData fs sessionId now faults pr
           = (case transaction (importTransaction pr now) \<lparr>conn_db = emptyDb, conn_faults = faults\<rparr> of
                (Inl e, d') \<Rightarrow> (Inl e, fs(getDbPath sessionId \<mapsto> DbFile d'))
              | (Inr u, d') \<Rightarrow> (Inr sessionId, fs(getDbPath sessionId \<mapsto> DbFile d')))"
  using assms by (auto simp: importData_def createDatabase_fresh split: prod.splits sum.splits)

lemma importTransaction_Inr:
  assumes "importTransaction pr now c = Inr c'" and "conn_db c = emptyDb"
  obtains idm tr lo where
    "membersInv (conn_db c') idm"
    "set (map platform_id (member (conn_db c'))) = set (map pm_platformId (pr_members pr))"
    "trackerInv idm (conn_db c') tr lo"
    "\<forall>m\<in>set (member (conn_db c')).
        case map_of tr (platform_id m) of None \<Rightarrow> True | Some x \<Rightarrow> member_name m = fst x"
    "dom (map_of tr) = p_senderPlatformId ` set (filter (knownSender idm) (pr_messages pr))"
    "map rowOf (message (conn_db c'))
       = map (sentRow idm) (filter (knownSender idm) (sort_key p_timestamp (pr_messages pr)))"
proof -
  define S where "S = sort_key p_timestamp (pr_messages pr)"
  from assms(1) obtain c1 c2 idm c3 tr where
    r1: "run (insertMeta (pmeta_name (pr_meta pr)) (pmeta_platform (pr_meta pr))
                  (pmeta_type (pr_meta pr)) now) c = Inr c1"
    and r2: "insertMembers (pr_members pr) (c1, []) = Inr (c2, idm)"
    and r3: "walkMessages idm S (c2, []) = Inr (c3, tr)"
    and r4: "updateNames tr c3 = Inr c'"
    unfolding S_def
    by (auto simp: importTransaction_def Let_def split: sum.splits prod.splits)
  have d1: "conn_db c1 = insertMeta (pmeta_name (pr_meta pr)) (pmeta_platform (pr_meta pr))
                  (pmeta_type (pr_meta pr)) now emptyDb"
    using run_Inr[OF r1] assms(2) by simp
  then have e1: "member (conn_db c1) = []" "member_name_history (conn_db c1) = []"
    "message (conn_db c1) = []"
    by (simp_all add: insertMeta_def emptyDb_def)
  note m = insertMembers_Inr[OF r2 membersInv_start[OF e1(1)]]
  have inv2: "membersInv (conn_db c2) idm" using m by blast
  have pids2: "set (map platform_id (member (conn_db c2))) = set (map pm_platformId (pr_members pr))"
    using m e1(1) by simp
  have e2: "member_name_history (conn_db c2) = []" "message (conn_db c2) = []"
    using m e1 by simp_all
  have sS: "sorted (map p_timestamp S)" by (simp add: S_def)
  note w = walkMessages_Inr[OF r3 trackerInv_start[OF e2(1)] membersInv_inj[OF inv2] sS
      sorted_lower_bound[OF sS]]
  from w obtain lo where inv3: "trackerInv idm (conn_db c3) tr lo" by blast
  have mem3: "member (conn_db c3) = member (conn_db c2)" using w by blast
  have dom3: "dom (map_of tr) = p_senderPlatformId ` set (filter (knownSender idm) (pr_messages pr))"
    using w by (simp add: S_def)
  have msg3: "map rowOf (message (conn_db c3)) = map (sentRow idm) (filter (knownSender idm) S)"
    using w e2(2) by simp
  have dist: "distinct (map fst tr)" using inv3 by (simp add: trackerInv_def)
  have d4: "conn_db c' = (conn_db c3)\<lparr>member := map (renamed tr) (member (conn_db c3))\<rparr>"
    using updateNames_Inr[OF r4] fold_updateMemberName[OF dist] by simp
  have "membersInv (conn_db c3) idm" using inv2 mem3 by (simp add: membersInv_def)
  then have f1: "membersInv (conn_db c') idm"
    unfolding d4 by (rule membersInv_renamed)
  have f2: "set (map platform_id (member (conn_db c'))) = set (map pm_platformId (pr_members pr))"
    unfolding d4 using pids2 mem3 by (simp add: comp_def)
  have f3: "trackerInv idm (conn_db c') tr lo"
    using inv3 trackerInv_history[of "conn_db c'" "conn_db c3"] by (simp add: d4)
  have f4: "\<forall>m\<in>set (member (conn_db c')).
        case map_of tr (platform_id m) of None \<Rightarrow> True | Some x \<Rightarrow> member_name m = fst x"
    unfolding d4 by (auto simp: renamed_def split: option.splits)
  have f6: "map rowOf (message (conn_db c'))
       = map (sentRow idm) (filter (knownSender idm) (sort_key p_timestamp (pr_messages pr)))"
    unfolding d4 using msg3 by (simp add: S_def)
  show ?thesis using that[OF f1 f2 f3 f4 dom3 f6] .
qed

lemma timeline_sorted: "timeline H \<Longrightarrow> sorted (map start_ts H)"
  by (induction H rule: timeline.induct) auto

lemma timeline_next:
  "timeline H \<Longrightarrow> Suc k < length H \<Longrightarrow> end_ts (H ! k) = Some (start_ts (H ! Suc k))"
proof (induction H arbitrary: k rule: timeline.induct)
  case 1
  then show ?case by simp
next
  case (2 h)
  then show ?case by simp
next
  case (3 h g hs)
  then show ?case by (cases k) auto
qed

lemma timeline_last_open: "timeline H \<Longrightarrow> H \<noteq> [] \<Longrightarrow> end_ts (last H) = None"
  by (induction H rule: timeline.induct) auto

lemma timeline_one_open:
  "timeline H \<Longrightarrow> H \<noteq> [] \<Longrightarrow> filter (\<lambda>h. end_ts h = None) H = [last H]"
  by (induction H rule: timeline.induct) auto

lemma timeline_closed_has_next:
  assumes "timeline H" "k < length H" "end_ts (H ! k) \<noteq> None"
  shows "Suc k < length H"
proof (rule ccontr)
  assume "\<not> Suc k < length H"
  then have "k = length H - 1" "H \<noteq> []" using assms(2) by auto
  then have "H ! k = last H" by (simp add: last_conv_nth)
  then show False using timeline_last_open[OF assms(1) \<open>H \<noteq> []\<close>] assms(3) by simp
qed

lemma timeline_nonoverlap:
  assumes "timeline H" "j < k" "k < length H"
  shows "\<exists>e. end_ts (H ! j) = Some e \<and> start_ts (H ! j) \<le> e \<and> e \<le> start_ts (H ! k)"
proof -
  have s: "sorted (map start_ts H)" using assms(1) by (rule timeline_sorted)
  have n: "end_ts (H ! j) = Some (start_ts (H ! Suc j))"
    using assms by (intro timeline_next) simp_all
  have "map start_ts H ! j \<le> map start_ts H ! Suc j"
    using s assms by (intro sorted_nth_mono) simp_all
  moreover have "map start_ts H ! Suc j \<le> map start_ts H ! k"
    using s assms by (intro sorted_nth_mono) simp_all
  ultimately show ?thesis using n assms by simp
qed

lemma importData_Inr:
  assumes "fs (getDbPath sessionId) = None"
    and "importData fs sessionId now faults pr = (Inr s, fs')"
  obtains c c' d where "s = sessionId" "fs' = fs(getDbPath sessionId \<mapsto> DbFile d)"
    "importTransaction pr now c = Inr c'" "conn_db c = emptyDb" "d = conn_db c'"
proof -
  obtain r d where t: "transaction (importTransaction pr now) \<lparr>conn_db = emptyDb, conn_faults = faults\<rparr> = (r, d)"
    by (cases "transaction (importTransaction pr now) \<lparr>conn_db = emptyDb, conn_faults = faults\<rparr>")
  from assms(2) have e: "r = Inr ()" "s = sessionId" "fs' = fs(getDbPath sessionId \<mapsto> DbFile d)"
    unfolding importData_fresh[of fs sessionId, OF assms(1)] t by (auto split: sum.splits)
  from t e(1) obtain c0 c1 where "tick \<lparr>conn_db = emptyDb, conn_faults = faults\<rparr> = Inr c0"
    "importTransaction pr now c0 = Inr c1" "d = conn_db c1"
    by (auto elim: transaction_Inr)
  then show ?thesis using that[of d c0 c1] e tick_Inr by fastforce
qed

lemma scenario_fst: "fst (importData Map.empty ''chat_1_abc'' 1000 None prScenario) = Inr ''chat_1_abc''"
  by code_simp

lemma scenario_snd:
  "snd (importData Map.empty ''chat_1_abc'' 1000 None prScenario) (getDbPath ''chat_1_abc'')
     = Some (DbFile importedScenario)"
  by code_simp

lemma scenario_run:
  "importData Map.empty ''chat_1_abc'' 1000 None prScenario
     = (Inr ''chat_1_abc'', snd (importData Map.empty ''chat_1_abc'' 1000 None prScenario))"
  using scenario_fst by (simp add: prod_eq_iff)

lemma scenario_history_x:
  "memberHistory importedScenario 1
     = [\<lparr>history_id = 1, h_member_id = 1, h_name = ''Alice'', start_ts = 100, end_ts = Some 200\<rparr>,
        \<lparr>history_id = 3, h_member_id = 1, h_name = ''Alicia'', start_ts = 200, end_ts = None\<rparr>]"
  by (simp add: memberHistory_def importedScenario_def)

lemma scenario_history_z: "memberHistory importedScenario 3 = []"
  by (simp add: memberHistory_def importedScenario_def)

section \<open>The nickname timeline\<close>

text \<open>
  C10. After an import into a new session that completes, the name-history rows of every
  member id, in the order of insertion, are in ascending order of \<open>start_ts\<close>, each row but
  the last ends exactly where the next one starts, and a closed row is never the last: the
  timeline has no gap.
\<close>

theorem importData_timeline_contiguous:
  assumes "fs (getDbPath sessionId) = None"
    and "importData fs sessionId now faults parseResult = (Inr s, fs')"
  shows "\<exists>d. fs' (getDbPath sessionId) = Some (DbFile d) \<and>
           (\<forall>i. sorted (map start_ts (memberHistory d i)) \<and>
                (\<forall>k. Suc k < length (memberHistory d i) \<longrightarrow>
                       end_ts (memberHistory d i ! k) = Some (start_ts (memberHistory d i ! Suc k))) \<and>
                (\<forall>k. k < length (memberHistory d i) \<and> end_ts (memberHistory d i ! k) \<noteq> None
                       \<longrightarrow> Suc k < length (memberHistory d i)))"
proof -
  from assms obtain c c' d where d: "fs' = fs(getDbPath sessionId \<mapsto> DbFile d)"
    and t: "importTransaction parseResult now c = Inr c'" "conn_db c = emptyDb" "d = conn_db c'"
    by (rule importData_Inr)
  from t(1,2) obtain idm tr lo where "trackerInv idm (conn_db c') tr lo"
    by (rule importTransaction_Inr)
  then have tl: "timeline (memberHistory d i)" for i
    using t(3) by (simp add: trackerInv_def)
  have "sorted (map start_ts (memberHistory d i)) \<and>
                (\<forall>k. Suc k < length (memberHistory d i) \<longrightarrow>
                       end_ts (memberHistory d i ! k) = Some (start_ts (memberHistory d i ! Suc k))) \<and>
                (\<forall>k. k < length (memberHistory d i) \<and> end_ts (memberHistory d i ! k) \<noteq> None
                       \<longrightarrow> Suc k < length (memberHistory d i))" for i
    using timeline_sorted[OF tl] timeline_next[OF tl] timeline_closed_has_next[OF tl] by blast
  then show ?thesis using d by auto
qed

theorem importData_timeline_contiguous_witness:
  "importData Map.empty ''chat_1_abc'' 1000 None prScenario
     = (Inr ''chat_1_abc'', snd (importData Map.empty ''chat_1_abc'' 1000 None prScenario))
   \<and> snd (importData Map.empty ''chat_1_abc'' 1000 None prScenario) (getDbPath ''chat_1_abc'')
       = Some (DbFile importedScenario)
   \<and> sorted (map start_ts (memberHistory importedScenario 1))
   \<and> length (memberHistory importedScenario 1) = 2
   \<and> end_ts (memberHistory importedScenario 1 ! 0)
       = Some (start_ts (memberHistory importedScenario 1 ! Suc 0))"
proof -
  have fresh: "(Map.empty :: fsys) (getDbPath ''chat_1_abc'') = None" by simp
  from importData_timeline_contiguous[of Map.empty "''chat_1_abc''", OF fresh scenario_run]
  obtain d where d: "snd (importData Map.empty ''chat_1_abc'' 1000 None prScenario)
                       (getDbPath ''chat_1_abc'') = Some (DbFile d)"
    and p: "\<And>i. sorted (map start_ts (memberHistory d i)) \<and>
                (\<forall>k. Suc k < length (memberHistory d i) \<longrightarrow>
                       end_ts (memberHistory d i ! k) = Some (start_ts (memberHistory d i ! Suc k)))"
    by blast
  have e: "d = importedScenario" using d scenario_snd by simp
  have l: "length (memberHistory importedScenario 1) = 2" by (simp add: scenario_history_x)
  from p[of 1] l have "sorted (map start_ts (memberHistory importedScenario 1))"
    "end_ts (memberHistory importedScenario 1 ! 0)
       = Some (start_ts (memberHistory importedScenario 1 ! Suc 0))"
    unfolding e by simp_all
  then show ?thesis using scenario_run scenario_snd l by blast
qed

text \<open>
  C2, as the code has it. After an import into a new session that completes, for every
  member row: its name-history rows are in ascending order of \<open>start_ts\<close>; they do not
  overlap (an earlier row is closed, and it ends no later than a later row starts); when
  the member sent a message, exactly one row is open, it is the last one, and the member's
  stored name is the name of that row; when the member sent no message, it has no row.
\<close>

theorem importData_nickname_history:
  assumes "fs (getDbPath sessionId) = None"
    and "importData fs sessionId now faults parseResult = (Inr s, fs')"
  shows "\<exists>d. fs' (getDbPath sessionId) = Some (DbFile d) \<and>
           (\<forall>m\<in>set (member d).
               sorted (map start_ts (memberHistory d (member_id m)))
             \<and> (\<forall>j k. j < k \<and> k < length (memberHistory d (member_id m)) \<longrightarrow>
                   (\<exists>e. end_ts (memberHistory d (member_id m) ! j) = Some e \<and>
                        start_ts (memberHistory d (member_id m) ! j) \<le> e \<and>
                        e \<le> start_ts (memberHistory d (member_id m) ! k)))
             \<and> (if platform_id m \<in> p_senderPlatformId ` set (pr_messages parseResult)
                 then filter (\<lambda>h. end_ts h = None) (memberHistory d (member_id m))
                        = [last (memberHistory d (member_id m))]
                    \<and> memberHistory d (member_id m) \<noteq> []
                    \<and> member_name m = h_name (last (memberHistory d (member_id m)))
                 else memberHistory d (member_id m) = []))"
proof -
  from assms obtain c c' d where d: "fs' = fs(getDbPath sessionId \<mapsto> DbFile d)"
    and t: "importTransaction parseResult now c = Inr c'" "conn_db c = emptyDb" "d = conn_db c'"
    by (rule importData_Inr)
  from t(1,2) obtain idm tr lo where
    mi: "membersInv d idm"
    and ti: "trackerInv idm d tr lo"
    and nm: "\<forall>m\<in>set (member d).
        case map_of tr (platform_id m) of None \<Rightarrow> True | Some x \<Rightarrow> member_name m = fst x"
    and dm: "dom (map_of tr) = p_senderPlatformId ` set (filter (knownSender idm) (pr_messages parseResult))"
    unfolding t(3) by (rule importTransaction_Inr)
  have tl: "timeline (memberHistory d i)" for i
    using ti by (simp add: trackerInv_def)
  have main: "sorted (map start_ts (memberHistory d (member_id m)))
             \<and> (\<forall>j k. j < k \<and> k < length (memberHistory d (member_id m)) \<longrightarrow>
                   (\<exists>e. end_ts (memberHistory d (member_id m) ! j) = Some e \<and>
                        start_ts (memberHistory d (member_id m) ! j) \<le> e \<and>
                        e \<le> start_ts (memberHistory d (member_id m) ! k)))
             \<and> (if platform_id m \<in> p_senderPlatformId ` set (pr_messages parseResult)
                 then filter (\<lambda>h. end_ts h = None) (memberHistory d (member_id m))
                        = [last (memberHistory d (member_id m))]
                    \<and> memberHistory d (member_id m) \<noteq> []
                    \<and> member_name m = h_name (last (memberHistory d (member_id m)))
                 else memberHistory d (member_id m) = [])"
    if m: "m \<in> set (member d)" for m
  proof -
    let ?H = "memberHistory d (member_id m)"
    have idm: "map_of idm (platform_id m) = Some (member_id m)"
      using mi m by (simp add: membersInv_def)
    have corr: "case map_of tr (platform_id m) of
                  None \<Rightarrow> ?H = []
                | Some x \<Rightarrow> ?H \<noteq> [] \<and> h_name (last ?H) = fst x"
      using ti idm by (simp add: trackerInv_def)
    have sent: "platform_id m \<in> p_senderPlatformId ` set (pr_messages parseResult)
                 \<longleftrightarrow> map_of tr (platform_id m) \<noteq> None"
    proof -
      have "map_of tr (platform_id m) \<noteq> None \<longleftrightarrow> platform_id m \<in> dom (map_of tr)" by auto
      also have "\<dots> \<longleftrightarrow> platform_id m \<in> p_senderPlatformId ` set (pr_messages parseResult)"
        unfolding dm using idm by (auto simp: knownSender_def)
      finally show ?thesis by simp
    qed
    have a: "sorted (map start_ts ?H)" by (rule timeline_sorted[OF tl])
    have b: "\<forall>j k. j < k \<and> k < length ?H \<longrightarrow>
                   (\<exists>e. end_ts (?H ! j) = Some e \<and> start_ts (?H ! j) \<le> e \<and> e \<le> start_ts (?H ! k))"
      using timeline_nonoverlap[OF tl] by blast
    have c: "if platform_id m \<in> p_senderPlatformId ` set (pr_messages parseResult)
                 then filter (\<lambda>h. end_ts h = None) ?H = [last ?H] \<and> ?H \<noteq> []
                    \<and> member_name m = h_name (last ?H)
                 else ?H = []"
    proof (cases "map_of tr (platform_id m)")
      case None
      then show ?thesis using corr sent by simp
    next
      case (Some x)
      then have ne: "?H \<noteq> []" and nmx: "h_name (last ?H) = fst x" using corr by simp_all
      have "member_name m = fst x" using nm m Some by force
      then show ?thesis using Some sent ne nmx timeline_one_open[OF tl ne] by simp
    qed
    show ?thesis using a b c by blast
  qed
  show ?thesis using d main by auto
qed

theorem importData_nickname_history_witness:
  "importData Map.empty ''chat_1_abc'' 1000 None prScenario
     = (Inr ''chat_1_abc'', snd (importData Map.empty ''chat_1_abc'' 1000 None prScenario))
   \<and> snd (importData Map.empty ''chat_1_abc'' 1000 None prScenario) (getDbPath ''chat_1_abc'')
       = Some (DbFile importedScenario)
   \<and> sorted (map start_ts (memberHistory importedScenario 1))
   \<and> filter (\<lambda>h. end_ts h = None) (memberHistory importedScenario 1)
       = [last (memberHistory importedScenario 1)]
   \<and> h_name (last (memberHistory importedScenario 1)) = ''Alicia''
   \<and> memberHistory importedScenario 3 = []"
proof -
  have fresh: "(Map.empty :: fsys) (getDbPath ''chat_1_abc'') = None" by simp
  let ?x = "\<lparr>member_id = 1, platform_id = ''x'', member_name = ''Alicia''\<rparr>"
  let ?z = "\<lparr>member_id = 3, platform_id = ''z'', member_name = ''Carol''\<rparr>"
  from importData_nickname_history[of Map.empty "''chat_1_abc''", OF fresh scenario_run]
  obtain d where d: "snd (importData Map.empty ''chat_1_abc'' 1000 None prScenario)
                       (getDbPath ''chat_1_abc'') = Some (DbFile d)"
    and p: "\<And>m. m \<in> set (member d) \<Longrightarrow>
               sorted (map start_ts (memberHistory d (member_id m)))
             \<and> (if platform_id m \<in> p_senderPlatformId ` set (pr_messages prScenario)
                 then filter (\<lambda>h. end_ts h = None) (memberHistory d (member_id m))
                        = [last (memberHistory d (member_id m))]
                    \<and> memberHistory d (member_id m) \<noteq> []
                    \<and> member_name m = h_name (last (memberHistory d (member_id m)))
                 else memberHistory d (member_id m) = [])"
    by blast
  have e: "d = importedScenario" using d scenario_snd by simp
  have mx: "?x \<in> set (member d)" and mz: "?z \<in> set (member d)"
    unfolding e by (simp_all add: importedScenario_def)
  have sx: "platform_id ?x \<in> p_senderPlatformId ` set (pr_messages prScenario)"
    and sz: "platform_id ?z \<notin> p_senderPlatformId ` set (pr_messages prScenario)"
    by (simp_all add: prScenario_def)
  from p[OF mx] sx have "sorted (map start_ts (memberHistory importedScenario 1))"
    "filter (\<lambda>h. end_ts h = None) (memberHistory importedScenario 1)
       = [last (memberHistory importedScenario 1)]"
    "h_name (last (memberHistory importedScenario 1)) = ''Alicia''"
    unfolding e by simp_all
  moreover from p[OF mz] sz have "memberHistory importedScenario 3 = []"
    unfolding e by simp
  ultimately show ?thesis using scenario_run scenario_snd by blast
qed

text \<open>
  C2 as the specification states it fails for a member that sent no message: in the
  example, \<open>z\<close> is a member row after the import and has no open row (no row at all).
\<close>

theorem importData_silent_member_counterexample:
  "fst (importData Map.empty ''chat_1_abc'' 1000 None prScenario) = Inr ''chat_1_abc''
   \<and> snd (importData Map.empty ''chat_1_abc'' 1000 None prScenario) (getDbPath ''chat_1_abc'')
       = Some (DbFile importedScenario)
   \<and> \<lparr>member_id = 3, platform_id = ''z'', member_name = ''Carol''\<rparr> \<in> set (member importedScenario)
   \<and> filter (\<lambda>h. end_ts h = None) (memberHistory importedScenario 3) = []"
  using scenario_fst scenario_snd scenario_history_z
  by (simp add: importedScenario_def)

section \<open>The order of the messages\<close>

lemma filter_key_unique:
  "distinct (map f zs) \<Longrightarrow> k \<in> set zs \<Longrightarrow> filter (\<lambda>x. f k = f x) zs = [k]"
proof (induction zs)
  case Nil
  then show ?case by simp
next
  case (Cons a zs)
  then show ?case by (auto simp: image_iff filter_empty_conv)
qed

lemma sort_key_perm_distinct:
  assumes "mset xs = mset ys" "distinct (map f xs)"
  shows "sort_key f xs = sort_key f ys"
proof -
  have "mset (map f ys) = mset (map f xs)" using assms(1) by simp
  then have dy: "distinct (map f ys)" using assms(2) by (metis mset_eq_imp_distinct_iff)
  have sets: "set ys = set xs" using assms(1) by (metis mset_eq_setD)
  show ?thesis
  proof (rule properties_for_sort_key)
    show "mset (sort_key f ys) = mset xs" using assms(1) by simp
    show "sorted (map f (sort_key f ys))" by simp
    fix k assume "k \<in> set (sort_key f ys)"
    then have k: "k \<in> set ys" "k \<in> set xs" using sets by simp_all
    have "filter (\<lambda>x. f k = f x) (sort_key f ys) = [k]"
      by (rule filter_key_unique) (use dy k in \<open>simp_all add: distinct_map_sort_key\<close>)
    moreover have "filter (\<lambda>x. f k = f x) xs = [k]"
      by (rule filter_key_unique[OF assms(2) k(2)])
    ultimately show "filter (\<lambda>x. f k = f x) (sort_key f ys) = filter (\<lambda>x. f k = f x) xs"
      by simp
  qed
qed

lemma importTransaction_perm:
  assumes "mset (pr_messages p1) = mset (pr_messages p2)" "pr_meta p1 = pr_meta p2"
    "pr_members p1 = pr_members p2" "distinct (map p_timestamp (pr_messages p1))"
  shows "importTransaction p1 now = importTransaction p2 now"
proof
  fix c
  have s: "sort_key p_timestamp (pr_messages p1) = sort_key p_timestamp (pr_messages p2)"
    using assms(1,4) by (rule sort_key_perm_distinct)
  show "importTransaction p1 now c = importTransaction p2 now c"
    unfolding importTransaction_def s assms(2) assms(3) ..
qed

lemma tie_AB:
  "snd (importData Map.empty ''chat_1_abc'' 1000 None prTieAB) (getDbPath ''chat_1_abc'')
     = Some (DbFile importedTieAB)"
  by code_simp

lemma tie_BA:
  "snd (importData Map.empty ''chat_1_abc'' 1000 None prTieBA) (getDbPath ''chat_1_abc'')
     = Some (DbFile importedTieBA)"
  by code_simp

text \<open>
  C5. Two parse results with the same meta and members whose message lists are
  permutations of each other, all timestamps distinct, are imported to the same result: the
  same session file, so the same name-history rows and the same final member names (the
  sort by timestamp brings both lists into one order). With equal timestamps the result
  can depend on the order: the two orders of the tie example end with different member
  names and different rows.
\<close>

theorem importData_order_independent:
  "(mset (pr_messages p1) = mset (pr_messages p2) \<and> pr_meta p1 = pr_meta p2 \<and>
    pr_members p1 = pr_members p2 \<and> distinct (map p_timestamp (pr_messages p1))
      \<longrightarrow> importData fs sessionId now faults p1 = importData fs sessionId now faults p2)
   \<and> (mset (pr_messages prTieAB) = mset (pr_messages prTieBA) \<and> pr_meta prTieAB = pr_meta prTieBA \<and>
      pr_members prTieAB = pr_members prTieBA \<and>
      snd (importData Map.empty ''chat_1_abc'' 1000 None prTieAB) (getDbPath ''chat_1_abc'')
        = Some (DbFile importedTieAB) \<and>
      snd (importData Map.empty ''chat_1_abc'' 1000 None prTieBA) (getDbPath ''chat_1_abc'')
        = Some (DbFile importedTieBA) \<and>
      map member_name (member importedTieAB) \<noteq> map member_name (member importedTieBA) \<and>
      map h_name (member_name_history importedTieAB)
        \<noteq> map h_name (member_name_history importedTieBA))"
proof -
  have a: "importData fs sessionId now faults p1 = importData fs sessionId now faults p2"
    if "mset (pr_messages p1) = mset (pr_messages p2)" "pr_meta p1 = pr_meta p2"
      "pr_members p1 = pr_members p2" "distinct (map p_timestamp (pr_messages p1))"
    unfolding importData_def importTransaction_perm[OF that] ..
  have b: "mset (pr_messages prTieAB) = mset (pr_messages prTieBA)" "pr_meta prTieAB = pr_meta prTieBA"
      "pr_members prTieAB = pr_members prTieBA"
    by (simp_all add: prTieBA_def)
  have c: "map member_name (member importedTieAB) \<noteq> map member_name (member importedTieBA)"
    "map h_name (member_name_history importedTieAB)
        \<noteq> map h_name (member_name_history importedTieBA)"
    by (simp_all add: importedTieAB_def importedTieBA_def)
  show ?thesis using a b c tie_AB tie_BA by blast
qed

theorem importData_order_independent_witness:
  "mset (pr_messages prScenario) = mset (pr_messages prScenarioRev)
   \<and> pr_meta prScenario = pr_meta prScenarioRev
   \<and> pr_members prScenario = pr_members prScenarioRev
   \<and> distinct (map p_timestamp (pr_messages prScenario))
   \<and> pr_messages prScenario \<noteq> pr_messages prScenarioRev
   \<and> importData Map.empty ''chat_1_abc'' 1000 None prScenario
       = importData Map.empty ''chat_1_abc'' 1000 None prScenarioRev"
proof -
  have h: "mset (pr_messages prScenario) = mset (pr_messages prScenarioRev)"
    "pr_meta prScenario = pr_meta prScenarioRev"
    "pr_members prScenario = pr_members prScenarioRev"
    by (simp_all add: prScenarioRev_def)
  have d: "distinct (map p_timestamp (pr_messages prScenario))"
    by (simp add: prScenario_def)
  have n: "pr_messages prScenario \<noteq> pr_messages prScenarioRev"
    by (simp add: prScenarioRev_def prScenario_def)
  from importData_order_independent[of prScenario prScenarioRev Map.empty "''chat_1_abc''" 1000 None]
    h d n show ?thesis by blast
qed

section \<open>Rollback and completeness of the import\<close>

lemma getMemberId_insertMember: "\<exists>i. getMemberId (insertMember pid n d) pid = Some i"
proof -
  have "pid \<in> platform_id ` set (member (insertMember pid n d))"
    by (simp add: insertMember_pids)
  then have "find (\<lambda>m. platform_id m = pid) (member (insertMember pid n d)) \<noteq> None"
    by (auto simp: find_None_iff)
  then show ?thesis by (auto simp: getMemberId_def)
qed

lemma insertMembers_None:
  "conn_faults c = None \<Longrightarrow>
   \<exists>c' idm'. insertMembers ms (c, idm) = Inr (c', idm') \<and> conn_faults c' = None"
proof (induction ms arbitrary: c idm)
  case Nil
  then show ?case by simp
next
  case (Cons mem ms)
  let ?c1 = "c\<lparr>conn_db := insertMember (pm_platformId mem) (pm_name mem) (conn_db c)\<rparr>"
  have r: "run (insertMember (pm_platformId mem) (pm_name mem)) c = Inr ?c1"
    using Cons.prems by (rule run_None)
  have f: "conn_faults ?c1 = None" using Cons.prems by simp
  have t: "tick ?c1 = Inr ?c1" using f by (rule tick_None)
  obtain i where g: "getMemberId (insertMember (pm_platformId mem) (pm_name mem) (conn_db c))
                       (pm_platformId mem) = Some i"
    using getMemberId_insertMember[of "pm_platformId mem" "pm_name mem" "conn_db c"] by auto
  from Cons.IH[OF f, of "AList.update (pm_platformId mem) i idm"] show ?case
    by (simp add: r t g)
qed

lemma processMessage_None:
  assumes "conn_faults c = None"
  shows "\<exists>c' tr'. processMessage idm msg (c, tr) = Inr (c', tr') \<and> conn_faults c' = None"
  using assms
  by (auto simp: processMessage_def run_None Let_def split: option.splits)

lemma walkMessages_None:
  "conn_faults c = None \<Longrightarrow>
   \<exists>c' tr'. walkMessages idm msgs (c, tr) = Inr (c', tr') \<and> conn_faults c' = None"
proof (induction msgs arbitrary: c tr)
  case Nil
  then show ?case by simp
next
  case (Cons msg msgs)
  from processMessage_None[OF Cons.prems, of idm msg tr] obtain c1 tr1 where
    p: "processMessage idm msg (c, tr) = Inr (c1, tr1)" and f: "conn_faults c1 = None" by blast
  from Cons.IH[OF f, of tr1] show ?case by (simp add: p)
qed

lemma updateNames_None:
  "conn_faults c = None \<Longrightarrow> \<exists>c'. updateNames tr c = Inr c' \<and> conn_faults c' = None"
proof (induction tr arbitrary: c)
  case Nil
  then show ?case by simp
next
  case (Cons e tr)
  obtain p x where e: "e = (p, x)" by (cases e)
  let ?c1 = "c\<lparr>conn_db := updateMemberName (fst x) p (conn_db c)\<rparr>"
  have r: "run (updateMemberName (fst x) p) c = Inr ?c1" using Cons.prems by (rule run_None)
  have f: "conn_faults ?c1 = None" using Cons.prems by simp
  from Cons.IH[OF f] show ?case by (simp add: e r)
qed

lemma importTransaction_None:
  assumes "conn_faults c = None"
  shows "\<exists>c'. importTransaction pr now c = Inr c' \<and> conn_faults c' = None"
proof -
  let ?c1 = "c\<lparr>conn_db := insertMeta (pmeta_name (pr_meta pr)) (pmeta_platform (pr_meta pr))
                  (pmeta_type (pr_meta pr)) now (conn_db c)\<rparr>"
  have r1: "run (insertMeta (pmeta_name (pr_meta pr)) (pmeta_platform (pr_meta pr))
                  (pmeta_type (pr_meta pr)) now) c = Inr ?c1"
    using assms by (rule run_None)
  have f1: "conn_faults ?c1 = None" using assms by simp
  from insertMembers_None[OF f1, of "pr_members pr" "[]"] obtain c2 idm where
    r2: "insertMembers (pr_members pr) (?c1, []) = Inr (c2, idm)" and f2: "conn_faults c2 = None"
    by blast
  from walkMessages_None[OF f2, of idm "sort_key p_timestamp (pr_messages pr)" "[]"]
  obtain c3 tr where
    r3: "walkMessages idm (sort_key p_timestamp (pr_messages pr)) (c2, []) = Inr (c3, tr)"
    and f3: "conn_faults c3 = None" by blast
  from updateNames_None[OF f3, of tr] obtain c4 where
    r4: "updateNames tr c3 = Inr c4" and f4: "conn_faults c4 = None" by blast
  show ?thesis by (simp add: importTransaction_def r1 r2 r3 r4 f4)
qed

lemma importData_None:
  assumes "fs (getDbPath sessionId) = None"
  shows "\<exists>fs'. importData fs sessionId now None pr = (Inr sessionId, fs')"
proof -
  let ?c = "\<lparr>conn_db = emptyDb, conn_faults = None\<rparr>"
  have f: "conn_faults ?c = None" by simp
  from importTransaction_None[OF f, of pr now] obtain c' where
    r: "importTransaction pr now ?c = Inr c'" and f': "conn_faults c' = None" by blast
  have "transaction (importTransaction pr now) ?c = (Inr (), conn_db c')"
    by (simp add: transaction_def tick_None r f')
  then show ?thesis
    unfolding importData_fresh[of fs sessionId, OF assms] by simp
qed

lemma importData_Inl:
  assumes "fs (getDbPath sessionId) = None"
    and "importData fs sessionId now faults pr = (Inl e, fs')"
  shows "fs' = fs(getDbPath sessionId \<mapsto> DbFile emptyDb)"
proof -
  obtain r d where t: "transaction (importTransaction pr now) \<lparr>conn_db = emptyDb, conn_faults = faults\<rparr> = (r, d)"
    by (cases "transaction (importTransaction pr now) \<lparr>conn_db = emptyDb, conn_faults = faults\<rparr>")
  from assms(2) have e: "r = Inl e" "fs' = fs(getDbPath sessionId \<mapsto> DbFile d)"
    unfolding importData_fresh[of fs sessionId, OF assms(1)] t by (auto split: sum.splits)
  have "d = conn_db \<lparr>conn_db = emptyDb, conn_faults = faults\<rparr>"
    using t unfolding e(1) by (rule transaction_Inl)
  then have "d = emptyDb" by simp
  then show ?thesis using e(2) by simp
qed

lemma find_by_id:
  assumes "distinct (map member_id ms)" "m \<in> set ms"
  shows "find (\<lambda>m'. member_id m' = member_id m) ms = Some m"
  using find_unique[OF assms] .

lemma membersInv_senderPid:
  assumes "membersInv d idm" "map_of idm pid = Some i" "sender_id r = i"
  shows "senderPid d r = Some pid"
proof -
  from assms(1,2) obtain m where m: "m \<in> set (member d)" "platform_id m = pid" "member_id m = i"
    unfolding membersInv_def by blast
  have "distinct (map member_id (member d))" using assms(1) by (simp add: membersInv_def)
  from find_by_id[OF this m(1)] show ?thesis using m assms(3) by (simp add: senderPid_def)
qed

lemma membersInv_dom:
  assumes "membersInv d idm"
  shows "map_of idm pid \<noteq> None \<longleftrightarrow> pid \<in> set (map platform_id (member d))"
  using assms unfolding membersInv_def by (metis image_eqI image_iff list.set_map option.exhaust option.simps(3))

lemma imported_messages:
  assumes mi: "membersInv d idm"
    and pids: "set (map platform_id (member d)) = set (map pm_platformId members)"
    and rows: "map rowOf (message d) = map (sentRow idm) (filter (knownSender idm) S)"
  shows "map (\<lambda>r. (senderPid d r, ts r, msg_type r, content r)) (message d)
           = map (\<lambda>m. (Some (p_senderPlatformId m), p_timestamp m, p_type m, p_content m))
               (filter (\<lambda>m. p_senderPlatformId m \<in> set (map pm_platformId members)) S)"
proof -
  define g :: "int \<times> int \<times> int \<times> string option \<Rightarrow> string option \<times> int \<times> int \<times> string option"
    where "g = (\<lambda>(i, t, ty, ct).
                 (map_option platform_id (find (\<lambda>m. member_id m = i) (member d)), t, ty, ct))"
  have known: "knownSender idm m \<longleftrightarrow> p_senderPlatformId m \<in> set (map pm_platformId members)" for m
    unfolding knownSender_def membersInv_dom[OF mi] pids ..
  have gs: "g (sentRow idm m) = (Some (p_senderPlatformId m), p_timestamp m, p_type m, p_content m)"
    if "knownSender idm m" for m
  proof -
    from that obtain i where i: "map_of idm (p_senderPlatformId m) = Some i"
      by (auto simp: knownSender_def)
    let ?r = "\<lparr>message_id = 0, sender_id = i, ts = 0, msg_type = 0, content = None\<rparr>"
    have "senderPid d ?r = Some (p_senderPlatformId m)"
      by (rule membersInv_senderPid[OF mi i]) simp
    then show ?thesis using i by (simp add: g_def sentRow_def senderPid_def)
  qed
  have "map (\<lambda>r. (senderPid d r, ts r, msg_type r, content r)) (message d)
          = map g (map rowOf (message d))"
    by (simp add: g_def rowOf_def senderPid_def comp_def)
  also have "\<dots> = map (\<lambda>m. g (sentRow idm m)) (filter (knownSender idm) S)"
    unfolding rows by (simp add: comp_def)
  also have "\<dots> = map (\<lambda>m. (Some (p_senderPlatformId m), p_timestamp m, p_type m, p_content m))
                      (filter (knownSender idm) S)"
    by (rule map_cong) (simp_all add: gs)
  also have "filter (knownSender idm) S
               = filter (\<lambda>m. p_senderPlatformId m \<in> set (map pm_platformId members)) S"
    by (rule filter_cong) (simp_all add: known)
  finally show ?thesis .
qed

text \<open>
  C1, as the code has it. For an import into a new session (no file at the session's
  path): when \<^verbatim>\<open>importData\<close> fails in the transaction, at whatever statement, every row
  written is rolled back, but the session file that \<^verbatim>\<open>createDatabase\<close> made before the
  transaction stays, with the empty schema (no meta row, member, name-history row or
  message), and no other file changes. When it succeeds it returns the session id, and the
  file holds a member row for exactly the platform ids of the member list, a message row
  for each message whose sender is in the member list (in the order of the sort, the
  sender resolved to that platform id; a message of an unknown sender is left out), and an
  open name-history row with the member's final name for every member that sent a message.
  With no fault it succeeds.
\<close>

theorem importData_rollback_or_complete:
  assumes "fs (getDbPath sessionId) = None"
  shows "(\<forall>e fs'. importData fs sessionId now faults pr = (Inl e, fs')
            \<longrightarrow> fs' = fs(getDbPath sessionId \<mapsto> DbFile emptyDb))
       \<and> (\<forall>s fs'. importData fs sessionId now faults pr = (Inr s, fs') \<longrightarrow>
            s = sessionId \<and>
            (\<exists>d. fs' = fs(getDbPath sessionId \<mapsto> DbFile d)
               \<and> set (map platform_id (member d)) = set (map pm_platformId (pr_members pr))
               \<and> map (\<lambda>r. (senderPid d r, ts r, msg_type r, content r)) (message d)
                   = map (\<lambda>m. (Some (p_senderPlatformId m), p_timestamp m, p_type m, p_content m))
                       (filter (\<lambda>m. p_senderPlatformId m \<in> set (map pm_platformId (pr_members pr)))
                          (sort_key p_timestamp (pr_messages pr)))
               \<and> (\<forall>m\<in>set (member d).
                     platform_id m \<in> p_senderPlatformId ` set (pr_messages pr) \<longrightarrow>
                     (\<exists>h\<in>set (member_name_history d).
                         h_member_id h = member_id m \<and> end_ts h = None \<and> h_name h = member_name m))))
       \<and> (faults = None \<longrightarrow> (\<exists>fs'. importData fs sessionId now faults pr = (Inr sessionId, fs')))"
proof (intro conjI allI impI)
  fix e fs' assume "importData fs sessionId now faults pr = (Inl e, fs')"
  with assms show "fs' = fs(getDbPath sessionId \<mapsto> DbFile emptyDb)" by (rule importData_Inl)
next
  fix s fs' assume r: "importData fs sessionId now faults pr = (Inr s, fs')"
  from assms r obtain c c' d where s: "s = sessionId"
    and d: "fs' = fs(getDbPath sessionId \<mapsto> DbFile d)"
    and t: "importTransaction pr now c = Inr c'" "conn_db c = emptyDb" "d = conn_db c'"
    by (rule importData_Inr)
  show "s = sessionId" by (rule s)
  from t(1,2) obtain idm tr lo where
    mi: "membersInv d idm"
    and pids: "set (map platform_id (member d)) = set (map pm_platformId (pr_members pr))"
    and ti: "trackerInv idm d tr lo"
    and nm: "\<forall>m\<in>set (member d).
        case map_of tr (platform_id m) of None \<Rightarrow> True | Some x \<Rightarrow> member_name m = fst x"
    and dm: "dom (map_of tr) = p_senderPlatformId ` set (filter (knownSender idm) (pr_messages pr))"
    and rows: "map rowOf (message d)
       = map (sentRow idm) (filter (knownSender idm) (sort_key p_timestamp (pr_messages pr)))"
    unfolding t(3) by (rule importTransaction_Inr)
  have msgs: "map (\<lambda>r. (senderPid d r, ts r, msg_type r, content r)) (message d)
                   = map (\<lambda>m. (Some (p_senderPlatformId m), p_timestamp m, p_type m, p_content m))
                       (filter (\<lambda>m. p_senderPlatformId m \<in> set (map pm_platformId (pr_members pr)))
                          (sort_key p_timestamp (pr_messages pr)))"
    by (rule imported_messages[OF mi pids rows])
  have opn: "\<forall>m\<in>set (member d).
                     platform_id m \<in> p_senderPlatformId ` set (pr_messages pr) \<longrightarrow>
                     (\<exists>h\<in>set (member_name_history d).
                         h_member_id h = member_id m \<and> end_ts h = None \<and> h_name h = member_name m)"
  proof (intro ballI impI)
    fix m assume m: "m \<in> set (member d)"
      and snt: "platform_id m \<in> p_senderPlatformId ` set (pr_messages pr)"
    let ?H = "memberHistory d (member_id m)"
    have idm: "map_of idm (platform_id m) = Some (member_id m)"
      using mi m by (simp add: membersInv_def)
    have "platform_id m \<in> dom (map_of tr)"
      unfolding dm using snt idm by (auto simp: knownSender_def)
    then obtain x where x: "map_of tr (platform_id m) = Some x" by auto
    have "case map_of tr (platform_id m) of
            None \<Rightarrow> ?H = []
          | Some x \<Rightarrow> ?H \<noteq> [] \<and> h_name (last ?H) = fst x"
      using ti idm by (simp add: trackerInv_def)
    then have ne: "?H \<noteq> []" and hn: "h_name (last ?H) = fst x"
      using x by simp_all
    have tl: "timeline ?H" using ti by (simp add: trackerInv_def)
    have "last ?H \<in> set ?H" using ne by simp
    then have a: "last ?H \<in> set (member_name_history d)" "h_member_id (last ?H) = member_id m"
      by (simp_all add: memberHistory_def)
    have b: "end_ts (last ?H) = None" by (rule timeline_last_open[OF tl ne])
    have c: "h_name (last ?H) = member_name m" using nm m x hn by force
    show "\<exists>h\<in>set (member_name_history d).
             h_member_id h = member_id m \<and> end_ts h = None \<and> h_name h = member_name m"
      using a b c by blast
  qed
  show "\<exists>d. fs' = fs(getDbPath sessionId \<mapsto> DbFile d)
               \<and> set (map platform_id (member d)) = set (map pm_platformId (pr_members pr))
               \<and> map (\<lambda>r. (senderPid d r, ts r, msg_type r, content r)) (message d)
                   = map (\<lambda>m. (Some (p_senderPlatformId m), p_timestamp m, p_type m, p_content m))
                       (filter (\<lambda>m. p_senderPlatformId m \<in> set (map pm_platformId (pr_members pr)))
                          (sort_key p_timestamp (pr_messages pr)))
               \<and> (\<forall>m\<in>set (member d).
                     platform_id m \<in> p_senderPlatformId ` set (pr_messages pr) \<longrightarrow>
                     (\<exists>h\<in>set (member_name_history d).
                         h_member_id h = member_id m \<and> end_ts h = None \<and> h_name h = member_name m))"
    using d pids msgs opn by blast
next
  assume "faults = None"
  then show "\<exists>fs'. importData fs sessionId now faults pr = (Inr sessionId, fs')"
    using importData_None[of fs sessionId now pr] assms by simp
qed

lemma fault_fst:
  "fst (importData Map.empty ''chat_1_abc'' 1000 (Some 5) prScenario) = Inl SqliteError"
  by code_simp

lemma fault_file:
  "snd (importData Map.empty ''chat_1_abc'' 1000 (Some 5) prScenario) (getDbPath ''chat_1_abc'')
     = Some (DbFile emptyDb)"
  by code_simp

lemma fault_run:
  "importData Map.empty ''chat_1_abc'' 1000 (Some 5) prScenario
     = (Inl SqliteError, snd (importData Map.empty ''chat_1_abc'' 1000 (Some 5) prScenario))"
  using fault_fst by (simp add: prod_eq_iff)

lemma unknown_fst:
  "fst (importData Map.empty ''chat_1_abc'' 1000 None prUnknown) = Inr ''chat_1_abc''"
  by code_simp

lemma unknown_file:
  "snd (importData Map.empty ''chat_1_abc'' 1000 None prUnknown) (getDbPath ''chat_1_abc'')
     = Some (DbFile importedUnknown)"
  by code_simp

theorem importData_rollback_or_complete_witness:
  "importData Map.empty ''chat_1_abc'' 1000 (Some 5) prScenario
     = (Inl SqliteError, snd (importData Map.empty ''chat_1_abc'' 1000 (Some 5) prScenario))
   \<and> snd (importData Map.empty ''chat_1_abc'' 1000 (Some 5) prScenario)
       = Map.empty(getDbPath ''chat_1_abc'' \<mapsto> DbFile emptyDb)
   \<and> importData Map.empty ''chat_1_abc'' 1000 None prScenario
       = (Inr ''chat_1_abc'', snd (importData Map.empty ''chat_1_abc'' 1000 None prScenario))
   \<and> snd (importData Map.empty ''chat_1_abc'' 1000 None prScenario)
       = Map.empty(getDbPath ''chat_1_abc'' \<mapsto> DbFile importedScenario)
   \<and> map (\<lambda>r. (senderPid importedScenario r, ts r)) (message importedScenario)
       = [(Some ''x'', 100), (Some ''y'', 150), (Some ''x'', 200), (Some ''x'', 300)]"
proof -
  have fresh: "(Map.empty :: fsys) (getDbPath ''chat_1_abc'') = None" by simp
  note T = importData_rollback_or_complete[of Map.empty "''chat_1_abc''", OF fresh]
  have a: "snd (importData Map.empty ''chat_1_abc'' 1000 (Some 5) prScenario)
             = Map.empty(getDbPath ''chat_1_abc'' \<mapsto> DbFile emptyDb)"
    by (rule T[of 1000 "Some 5" prScenario, THEN conjunct1, rule_format, OF fault_run])
  from T[of 1000 None prScenario, THEN conjunct2, THEN conjunct1, rule_format, OF scenario_run]
  obtain d where d: "snd (importData Map.empty ''chat_1_abc'' 1000 None prScenario)
                       = Map.empty(getDbPath ''chat_1_abc'' \<mapsto> DbFile d)"
    by (elim conjE exE)
  have "d = importedScenario" using scenario_snd unfolding d by simp
  then have b: "snd (importData Map.empty ''chat_1_abc'' 1000 None prScenario)
                  = Map.empty(getDbPath ''chat_1_abc'' \<mapsto> DbFile importedScenario)"
    using d by simp
  have c: "map (\<lambda>r. (senderPid importedScenario r, ts r)) (message importedScenario)
       = [(Some ''x'', 100), (Some ''y'', 150), (Some ''x'', 200), (Some ''x'', 300)]"
    by (simp add: importedScenario_def senderPid_def)
  show ?thesis by (intro conjI fault_run a scenario_run b c)
qed

text \<open>
  C1 as the specification states it fails twice. After a failure (the sixth statement
  throws) the store is not as it was before the import: there was no file, and now the
  session's file exists, with empty tables. After a success not every message of the
  parse result is stored: the message of an unknown sender is not.
\<close>

theorem importData_not_atomic_counterexample:
  "fst (importData Map.empty ''chat_1_abc'' 1000 (Some 5) prScenario) = Inl SqliteError
   \<and> (Map.empty :: fsys) (getDbPath ''chat_1_abc'') = None
   \<and> snd (importData Map.empty ''chat_1_abc'' 1000 (Some 5) prScenario) (getDbPath ''chat_1_abc'')
       = Some (DbFile emptyDb)
   \<and> snd (importData Map.empty ''chat_1_abc'' 1000 (Some 5) prScenario) \<noteq> Map.empty
   \<and> fst (importData Map.empty ''chat_1_abc'' 1000 None prUnknown) = Inr ''chat_1_abc''
   \<and> snd (importData Map.empty ''chat_1_abc'' 1000 None prUnknown) (getDbPath ''chat_1_abc'')
       = Some (DbFile importedUnknown)
   \<and> length (pr_messages prUnknown) = 1
   \<and> message importedUnknown = []"
proof -
  have n: "(Map.empty :: fsys) (getDbPath ''chat_1_abc'') = None" by simp
  have ne: "snd (importData Map.empty ''chat_1_abc'' 1000 (Some 5) prScenario) \<noteq> Map.empty"
  proof
    assume "snd (importData Map.empty ''chat_1_abc'' 1000 (Some 5) prScenario) = Map.empty"
    then show False using fault_file by simp
  qed
  have l: "length (pr_messages prUnknown) = 1" by (simp add: prUnknown_def)
  have m: "message importedUnknown = []" by (simp add: importedUnknown_def)
  show ?thesis by (intro conjI fault_fst n fault_file ne unknown_fst unknown_file l m)
qed

end
